theory Spec2Isabelle
  imports Main
begin

section \<open>JavaScript values and effects\<close>

text \<open>
  A thrown value. \<open>err_code\<close> is the value of \<^verbatim>\<open>error.code\<close> when
  \<^verbatim>\<open>typeof error.code === 'string'\<close>, and \<open>None\<close> for every other value of that
  property (absent, a number, null).
\<close>

datatype js_error = JsError (err_name: string) (err_message: string) (err_code: "string option")

text \<open>
  What \<^verbatim>\<open>JSON.parse\<close> returns. A number is carried as the text that JavaScript's
  number-to-string conversion gives for it; the own keys of an object are distinct.
\<close>

datatype json =
    JNull
  | JBool bool
  | JNumber string
  | JString string
  | JArray "json list"
  | JObject "(string \<times> json) list"

text \<open>
  The pieces of a console line: the literal text and the interpolated values of a
  template literal, or the arguments of \<^verbatim>\<open>console.log\<close> and \<^verbatim>\<open>console.error\<close>.
  \<open>Json\<close> stands for \<^verbatim>\<open>JSON.stringify\<close> of an array of parsed values.
\<close>

datatype log_part = Str string | Num nat | Err js_error | Json "json list"

text \<open>
  The observable effects, in the order they happen: a call of
  \<^verbatim>\<open>openai.chat.completions.create\<close> (with the user message it sends), a wait on
  \<^verbatim>\<open>setTimeout\<close> (in milliseconds), and console output.
\<close>

datatype event =
    CompletionsCreate string
  | SetTimeout nat
  | ConsoleError "log_part list"
  | ConsoleLog "log_part list"

type_synonym world = "event list"

fun is_create :: "event \<Rightarrow> bool" where
  "is_create (CompletionsCreate c) = True"
| "is_create e = False"

definition completions :: "world \<Rightarrow> nat" where
  "completions s = length (filter is_create s)"

definition timeouts :: "world \<Rightarrow> nat list" where
  "timeouts s = concat (map (\<lambda>e. case e of SetTimeout ms \<Rightarrow> [ms] | _ \<Rightarrow> []) s)"

section \<open>The completion API\<close>

text \<open>
  The object \<^verbatim>\<open>create\<close> resolves to, as far as
  \<^verbatim>\<open>result.choices?.[0]?.message?.content\<close> reads it: every step of the chain may be
  absent (\<open>None\<close> stands for undefined and null).
\<close>

datatype chat_message = ChatMessage (content: "string option")
datatype chat_choice = ChatChoice (message: "chat_message option")
datatype chat_completion = ChatCompletion (choices: "chat_choice option list option")

text \<open>
  The service is outside the program: it is a parameter. Its answer may depend on how many
  calls came before (the index) and on the user message; the system prompt, the model name
  and \<^verbatim>\<open>max_tokens\<close> are the same constants in every call. \<open>Inl\<close> is a rejected
  promise.
\<close>

type_synonym completion_api = "nat \<Rightarrow> string \<Rightarrow> js_error + chat_completion"

text \<open>\<^verbatim>\<open>JSON.parse\<close> is the built-in: a parameter, \<open>Inl\<close> its SyntaxError.\<close>

type_synonym json_parse = "string \<Rightarrow> js_error + json"

definition BATCH_SIZE :: nat where
  "BATCH_SIZE = 15"

definition isRateLimitError :: "js_error \<Rightarrow> bool" where
  "isRateLimitError error = (err_code error \<noteq> None)"

text \<open>The test of the catch block that decides between the backoff and the re-throw.\<close>

definition retryable :: "js_error \<Rightarrow> bool" where
  "retryable error =
     (isRateLimitError error \<and>
      (err_code error = Some ''insufficient_quota'' \<or> err_code error = Some ''rate_limit''))"

text \<open>\<^verbatim>\<open>result.choices?.[0]?.message?.content || ""\<close>\<close>

fun returned_content :: "chat_completion \<Rightarrow> string" where
  "returned_content (ChatCompletion None) = ''''"
| "returned_content (ChatCompletion (Some [])) = ''''"
| "returned_content (ChatCompletion (Some (None # cs))) = ''''"
| "returned_content (ChatCompletion (Some (Some (ChatChoice None) # cs))) = ''''"
| "returned_content (ChatCompletion (Some (Some (ChatChoice (Some (ChatMessage None))) # cs))) = ''''"
| "returned_content (ChatCompletion (Some (Some (ChatChoice (Some (ChatMessage (Some t)))) # cs))) = t"

text \<open>\<^verbatim>\<open>Array.prototype.join\<close> on an array of strings.\<close>

fun join :: "string \<Rightarrow> string list \<Rightarrow> string" where
  "join sep [] = ''''"
| "join sep [x] = x"
| "join sep (x # y # ys) = x @ sep @ join sep (y # ys)"

definition maxRetries :: nat where
  "maxRetries = 5"

text \<open>
  The retry loop of \<^verbatim>\<open>summarise\<close>, from attempt \<open>attempt\<close>: \<open>Inr\<close> is the value of
  \<^verbatim>\<open>returnedContent\<close> when the loop is left (by \<^verbatim>\<open>break\<close>, or with the initial
  \<^verbatim>\<open>""\<close> when the attempts are used up), \<open>Inl\<close> the error thrown again.
\<close>

function summarise_retry :: "completion_api \<Rightarrow> string \<Rightarrow> nat \<Rightarrow> world \<Rightarrow> (js_error + string) \<times> world" where
  "summarise_retry api user_content attempt s =
     (if attempt < maxRetries then
        (case api (completions s) user_content of
           Inr result \<Rightarrow> (Inr (returned_content result), s @ [CompletionsCreate user_content])
         | Inl error \<Rightarrow>
             (let s1 = s @ [CompletionsCreate user_content,
                            ConsoleError [Str ''Error querying OpenAI API:'', Err error]]
              in if retryable error then
                   (let waitTime = 2 ^ attempt * 1000
                    in summarise_retry api user_content (attempt + 1)
                         (s1 @ [ConsoleLog [Str ''Retrying in '', Num (waitTime div 1000), Str '' seconds...''],
                                SetTimeout waitTime]))
                 else (Inl error, s1)))
      else (Inr '''', s))"
  by pat_completeness auto
termination
  by (relation "measure (\<lambda>(api, user_content, attempt, s). maxRetries - attempt)") auto

declare summarise_retry.simps [simp del]

text \<open>\<^verbatim>\<open>Array.isArray\<close>, and the elements of a value that is an array.\<close>

fun isArray :: "json \<Rightarrow> bool" where
  "isArray (JArray xs) = True"
| "isArray v = False"

fun array_elements :: "json \<Rightarrow> json list" where
  "array_elements (JArray xs) = xs"
| "array_elements v = []"

definition no_response :: js_error where
  "no_response = JsError ''Error'' ''Failed to get a response from OpenAI API'' None"

text \<open>
  \<^verbatim>\<open>summarise(tickets)\<close>. The client constructor is taken to succeed (the key is
  configuration).
\<close>

definition summarise :: "completion_api \<Rightarrow> json_parse \<Rightarrow> string list \<Rightarrow> world \<Rightarrow> (js_error + json list) \<times> world" where
  "summarise api parse tickets s =
     (case summarise_retry api (join ''\<newline>---\<newline>'' tickets) 0 s of
        (Inl error, s1) \<Rightarrow> (Inl error, s1)
      | (Inr returnedContent, s1) \<Rightarrow>
          if returnedContent = '''' then (Inl no_response, s1)
          else (case parse returnedContent of
                  Inr parsedContent \<Rightarrow>
                    (Inr (if \<not> isArray parsedContent then [parsedContent]
                          else array_elements parsedContent), s1)
                | Inl error \<Rightarrow>
                    (Inr [], s1 @ [ConsoleError [Str ''Error parsing OpenAI API response:'', Err error]])))"

section \<open>The batch pipeline\<close>

text \<open>
  A tracker issue as \<^verbatim>\<open>summariseTickets\<close> reads it. The fields that the template
  literal interpolates hold the text the interpolation gives. The three lazy fields are
  promises: \<open>Inl\<close> is a rejection, \<open>ticket_assignee\<close> resolves to the user's
  name if there is a user, \<open>ticket_labels\<close> to the label names, \<open>ticket_project\<close>
  to the project's name if there is a project. \<open>ticket_settled\<close> is the instant at
  which the callback that awaits them settles; it is the tracker's answer time, and only
  the order of these instants among the rejected callbacks of one batch is ever read.
\<close>

record ticket =
  ticket_identifier :: string
  ticket_title :: string
  ticket_priorityLabel :: string
  ticket_estimate :: string
  ticket_assignee :: "js_error + string option"
  ticket_labels :: "js_error + string list"
  ticket_project :: "js_error + string option"
  ticket_url :: string
  ticket_description :: string
  ticket_settled :: nat

text \<open>The async callback of \<^verbatim>\<open>map\<close> in \<^verbatim>\<open>summariseTickets\<close>.\<close>

definition ticket_text :: "ticket \<Rightarrow> js_error + string" where
  "ticket_text ticket =
     (case ticket_assignee ticket of
        Inl error \<Rightarrow> Inl error
      | Inr assignee \<Rightarrow>
     (case ticket_labels ticket of
        Inl error \<Rightarrow> Inl error
      | Inr labels \<Rightarrow>
     (case ticket_project ticket of
        Inl error \<Rightarrow> Inl error
      | Inr project \<Rightarrow>
          (let projectLabel =
                 (case project of
                    Some name \<Rightarrow> name
                  | None \<Rightarrow> if ''bug'' \<in> set labels then ''Bug'' else ''Enhancement'')
           in Inr (''\<newline>        - Ticket identifier: '' @ ticket_identifier ticket @
                   ''\<newline>        - Ticket title: '' @ ticket_title ticket @
                   ''\<newline>        - Ticket priority: '' @ ticket_priorityLabel ticket @
                   ''\<newline>        - Ticket estimate: '' @ ticket_estimate ticket @
                   ''\<newline>        - Person responsible for the ticket: '' @
                     (case assignee of Some name \<Rightarrow> name | None \<Rightarrow> '''') @
                   ''\<newline>        - Labels of the ticket: '' @ join '', '' labels @
                   ''\<newline>        - Url of the ticket: '' @ ticket_url ticket @
                   ''\<newline>        - Ticket description: '' @ ticket_description ticket @
                   ''\<newline>        - Project: '' @ projectLabel @
                   ''\<newline>      '')))))"

text \<open>The promise of the callback of one ticket: the instant it settles, and what it settles to.\<close>

definition ticket_callback :: "ticket \<Rightarrow> nat \<times> (js_error + string)" where
  "ticket_callback ticket = (ticket_settled ticket, ticket_text ticket)"

text \<open>
  \<^verbatim>\<open>Promise.all\<close> over the callbacks of one batch: the texts in batch order when
  every callback fulfils, and otherwise the rejection that comes first in time. (Two
  rejections never come at the same instant; on equal instants the model takes the one
  that stands first in the batch.)
\<close>

fun first_rejection :: "(nat \<times> (js_error + string)) list \<Rightarrow> (nat \<times> js_error) option" where
  "first_rejection [] = None"
| "first_rejection ((instant, Inr text) # rest) = first_rejection rest"
| "first_rejection ((instant, Inl error) # rest) =
     (case first_rejection rest of
        None \<Rightarrow> Some (instant, error)
      | Some (instant1, error1) \<Rightarrow>
          if instant1 < instant then Some (instant1, error1) else Some (instant, error))"

fun fulfilled :: "(nat \<times> (js_error + string)) list \<Rightarrow> string list" where
  "fulfilled [] = []"
| "fulfilled ((instant, Inr text) # rest) = text # fulfilled rest"
| "fulfilled ((instant, Inl error) # rest) = fulfilled rest"

definition promise_all :: "(nat \<times> (js_error + string)) list \<Rightarrow> js_error + string list" where
  "promise_all promises =
     (case first_rejection promises of
        Some (instant, error) \<Rightarrow> Inl error
      | None \<Rightarrow> Inr (fulfilled promises))"

text \<open>The \<^verbatim>\<open>for\<close> loop of \<^verbatim>\<open>summariseTickets\<close>, from index \<open>i\<close>.\<close>

function summariseTickets_loop ::
  "completion_api \<Rightarrow> json_parse \<Rightarrow> ticket list \<Rightarrow> nat \<Rightarrow> json list \<Rightarrow> world \<Rightarrow> (js_error + json list) \<times> world" where
  "summariseTickets_loop api parse tickets i summarisedTickets s =
     (if i < length tickets then
        (case promise_all (map ticket_callback (take BATCH_SIZE (drop i tickets))) of
           Inl error \<Rightarrow> (Inl error, s)
         | Inr ticketBatch \<Rightarrow>
             (case summarise api parse ticketBatch
                     (s @ [ConsoleLog [Str ''Summarising '', Num (length ticketBatch),
                                       Str '' tickets - batch: ['', Num i, Str '', '', Num (i + BATCH_SIZE),
                                       Str ''] out of '', Num (length tickets), Str ''...'']]) of
                (Inl error, s1) \<Rightarrow> (Inl error, s1)
              | (Inr summarisedTicketBatch, s1) \<Rightarrow>
                  summariseTickets_loop api parse tickets (i + BATCH_SIZE)
                    (summarisedTickets @ summarisedTicketBatch)
                    (s1 @ [ConsoleLog [Str ''Summarised results:''], ConsoleLog [Json summarisedTicketBatch]])))
      else (Inr summarisedTickets, s))"
  by pat_completeness auto
termination
  by (relation "measure (\<lambda>(api, parse, tickets, i, summarisedTickets, s). length tickets - i)")
     (auto simp: BATCH_SIZE_def)

declare summariseTickets_loop.simps [simp del]

definition summariseTickets :: "completion_api \<Rightarrow> json_parse \<Rightarrow> ticket list \<Rightarrow> world \<Rightarrow> (js_error + json list) \<times> world" where
  "summariseTickets api parse tickets s =
     summariseTickets_loop api parse tickets 0 []
       (s @ [ConsoleLog [Str ''Summarising '', Num (length tickets), Str '' tickets...'']])"

section \<open>Fetching from the tracker\<close>

record project =
  project_id :: string
  project_name :: string

text \<open>
  The filter of \<^verbatim>\<open>linearClient.issues\<close>: the project (\<open>None\<close> asks for the issues
  without a project) and the column. The team and the page size are constants, the
  \<^verbatim>\<open>updatedAt\<close> bound comes from the clock. The tracker is a parameter; \<open>Inl\<close> is
  a rejected query, \<open>Inr\<close> the \<^verbatim>\<open>nodes\<close> of the answer.
\<close>

datatype issue_filter = IssueFilter (filter_project: "string option") (filter_state: string)

type_synonym linear_issues = "issue_filter \<Rightarrow> js_error + ticket list"

definition LINEAR_DONE_COLUMN :: string where
  "LINEAR_DONE_COLUMN = ''Done''"

definition LINEAR_STAGING_COLUMN :: string where
  "LINEAR_STAGING_COLUMN = ''Staging''"

definition LINEAR_IN_REVIEW_COLUMN :: string where
  "LINEAR_IN_REVIEW_COLUMN = ''In Review''"

definition LINEAR_IN_PROGRESS_COLUMN :: string where
  "LINEAR_IN_PROGRESS_COLUMN = ''In Progress''"

definition LINEAR_TODO_COLUMN :: string where
  "LINEAR_TODO_COLUMN = ''To Do''"

definition getAllProjects :: "js_error + project list \<Rightarrow> world \<Rightarrow> project list \<times> world" where
  "getAllProjects linear_projects s =
     (case linear_projects of
        Inr nodes \<Rightarrow> (nodes, s @ [ConsoleLog [Str ''Found '', Num (length nodes), Str '' active projects...'']])
      | Inl error \<Rightarrow> ([], s @ [ConsoleError [Str ''Error fetching projects'', Err error]]))"

definition getAllTicketsForProject :: "linear_issues \<Rightarrow> project \<Rightarrow> string \<Rightarrow> world \<Rightarrow> ticket list \<times> world" where
  "getAllTicketsForProject issues project columnName s =
     (case issues (IssueFilter (Some (project_id project)) columnName) of
        Inr nodes \<Rightarrow>
          (let totalTicketCount = length nodes
           in if totalTicketCount \<noteq> 0 then
                (nodes, s @ [ConsoleLog [Str ''Found '', Num totalTicketCount, Str '' tickets in project '',
                                         Str (project_name project), Str '' under column '', Str columnName,
                                         Str ''...'']])
              else
                ([], s @ [ConsoleLog [Str ''No issues found in project '', Str (project_name project),
                                      Str '' under column '', Str columnName]]))
      | Inl error \<Rightarrow>
          ([], s @ [ConsoleError [Str ''Error fetching issues for project '', Str (project_name project),
                                  Str '' from column '', Str columnName, Err error]]))"

definition getAllUnprojectedTickets :: "linear_issues \<Rightarrow> string \<Rightarrow> world \<Rightarrow> ticket list \<times> world" where
  "getAllUnprojectedTickets issues columnName s =
     (case issues (IssueFilter None columnName) of
        Inr nodes \<Rightarrow>
          (let totalTicketCount = length nodes
           in if totalTicketCount \<noteq> 0 then
                (nodes, s @ [ConsoleLog [Str ''Found '', Num totalTicketCount,
                                         Str '' unprojected tickets in column '', Str columnName, Str ''...'']])
              else
                ([], s @ [ConsoleLog [Str ''No unprojected issues found in column '', Str columnName]]))
      | Inl error \<Rightarrow>
          ([], s @ [ConsoleError [Str ''Error fetching unprojected issues from column '', Str columnName,
                                  Err error]]))"

section \<open>The formatter\<close>

text \<open>
  The tickets that \<^verbatim>\<open>formatReleaseNote\<close> receives are the parsed values that
  \<^verbatim>\<open>summarise\<close> returned, so the property reads and the conversions to text follow
  JavaScript on any such value.
\<close>

definition quote :: string where
  "quote = [CHR 0x27]"

text \<open>
  \<^verbatim>\<open>ticket.name\<close> for the five names the formatter reads (project, category, summary,
  identifier, url), which no prototype defines: reading them from null throws, an object
  gives its own property, every other value gives undefined (\<open>None\<close>).
\<close>

fun get_field :: "json \<Rightarrow> string \<Rightarrow> js_error + json option" where
  "get_field JNull name =
     Inl (JsError ''TypeError'' (''Cannot read properties of null (reading '' @ quote @ name @ quote @ '')'') None)"
| "get_field (JObject props) name = Inr (map_of props name)"
| "get_field v name = Inr None"

definition no_primitive :: js_error where
  "no_primitive = JsError ''TypeError'' ''Cannot convert object to primitive value'' None"

text \<open>
  The conversion to a string that a template literal and a property key apply. An array
  joins the texts of its elements with a comma, null elements giving the empty text. An
  object gives \<^verbatim>\<open>[object Object]\<close> through the inherited \<^verbatim>\<open>toString\<close>; an own
  property of that name, which in a parsed value is never a function, leaves no way to a
  primitive.
\<close>

fun to_string :: "json \<Rightarrow> js_error + string"
  and join_elements :: "json list \<Rightarrow> js_error + string" where
  "to_string JNull = Inr ''null''"
| "to_string (JBool b) = Inr (if b then ''true'' else ''false'')"
| "to_string (JNumber text) = Inr text"
| "to_string (JString text) = Inr text"
| "to_string (JArray elements) = join_elements elements"
| "to_string (JObject props) =
     (if ''toString'' \<in> fst ` set props then Inl no_primitive else Inr ''[object Object]'')"
| "join_elements [] = Inr ''''"
| "join_elements (x # xs) =
     (case (if x = JNull then Inr '''' else to_string x) of
        Inl error \<Rightarrow> Inl error
      | Inr text \<Rightarrow>
          if xs = [] then Inr text
          else (case join_elements xs of
                  Inl error \<Rightarrow> Inl error
                | Inr texts \<Rightarrow> Inr (text @ '','' @ texts)))"

fun to_text :: "json option \<Rightarrow> js_error + string" where
  "to_text None = Inr ''undefined''"
| "to_text (Some v) = to_string v"

definition field_text :: "json \<Rightarrow> string \<Rightarrow> js_error + string" where
  "field_text ticket name =
     (case get_field ticket name of Inl error \<Rightarrow> Inl error | Inr v \<Rightarrow> to_text v)"

text \<open>
  The object \<^verbatim>\<open>group\<close> of the reducer: its own properties in the order they were
  created, each an array of tickets. It starts as \<^verbatim>\<open>{}\<close>, so it inherits the
  properties of \<^verbatim>\<open>Object.prototype\<close>, all of them truthy and none of them an array.
\<close>

type_synonym groups = "(string \<times> json list) list"

definition object_prototype_names :: "string list" where
  "object_prototype_names =
     [''constructor'', ''__defineGetter__'', ''__defineSetter__'', ''hasOwnProperty'',
      ''__lookupGetter__'', ''__lookupSetter__'', ''isPrototypeOf'', ''propertyIsEnumerable'',
      ''toString'', ''valueOf'', ''__proto__'', ''toLocaleString'']"

definition not_a_function :: js_error where
  "not_a_function = JsError ''TypeError'' ''group[projectName].push is not a function'' None"

text \<open>\<^verbatim>\<open>group[key].push(ticket)\<close> on an own property.\<close>

definition push :: "groups \<Rightarrow> string \<Rightarrow> json \<Rightarrow> groups" where
  "push grouped key ticket =
     map (\<lambda>(name, arr). if name = key then (name, arr @ [ticket]) else (name, arr)) grouped"

text \<open>The callback of \<^verbatim>\<open>reduce\<close>.\<close>

definition group_ticket :: "groups \<Rightarrow> json \<Rightarrow> js_error + groups" where
  "group_ticket grouped ticket =
     (case get_field ticket ''project'' of
        Inl error \<Rightarrow> Inl error
      | Inr projectName \<Rightarrow>
          (case to_text projectName of
             Inl error \<Rightarrow> Inl error
           | Inr key \<Rightarrow>
               (let group1 =
                      (if key \<notin> fst ` set grouped \<and> key \<notin> set object_prototype_names
                       then grouped @ [(key, [])] else grouped)
                in if key \<in> fst ` set group1 then Inr (push group1 key ticket)
                   else Inl not_a_function)))"

fun reduce_tickets :: "json list \<Rightarrow> groups \<Rightarrow> js_error + groups" where
  "reduce_tickets [] grouped = Inr grouped"
| "reduce_tickets (ticket # rest) grouped =
     (case group_ticket grouped ticket of
        Inl error \<Rightarrow> Inl error
      | Inr group1 \<Rightarrow> reduce_tickets rest group1)"

text \<open>
  \<^verbatim>\<open>Object.keys\<close>: the keys that are array indices (the decimal text of an integer
  from 0 to 4294967294) in ascending numeric order, then the other keys in the order
  they were created.
\<close>

definition decimal_value :: "string \<Rightarrow> nat" where
  "decimal_value key = foldl (\<lambda>n c. 10 * n + (of_char c - 48)) 0 key"

definition is_array_index :: "string \<Rightarrow> bool" where
  "is_array_index key =
     (key \<noteq> [] \<and> list_all (\<lambda>c. c \<in> set ''0123456789'') key \<and>
      (key = ''0'' \<or> hd key \<noteq> CHR ''0'') \<and> decimal_value key < 4294967295)"

definition object_keys :: "groups \<Rightarrow> string list" where
  "object_keys grouped =
     sort_key decimal_value (filter is_array_index (map fst grouped)) @
     filter (\<lambda>key. \<not> is_array_index key) (map fst grouped)"

text \<open>The line of one ticket; the four fields are converted in the order they stand.\<close>

definition ticket_line :: "json \<Rightarrow> js_error + string" where
  "ticket_line ticket =
     (case field_text ticket ''category'' of
        Inl error \<Rightarrow> Inl error
      | Inr category \<Rightarrow>
     (case field_text ticket ''summary'' of
        Inl error \<Rightarrow> Inl error
      | Inr summary \<Rightarrow>
     (case field_text ticket ''identifier'' of
        Inl error \<Rightarrow> Inl error
      | Inr ident \<Rightarrow>
     (case field_text ticket ''url'' of
        Inl error \<Rightarrow> Inl error
      | Inr url \<Rightarrow>
          Inr (''['' @ category @ ''] '' @ summary @ '' - ['' @ ident @ '']('' @ url @ '')\<newline>'')))))"

text \<open>The inner \<^verbatim>\<open>forEach\<close>: one line per ticket appended to \<^verbatim>\<open>resultString\<close>.\<close>

fun append_lines :: "json list \<Rightarrow> string \<Rightarrow> js_error + string" where
  "append_lines [] resultString = Inr resultString"
| "append_lines (ticket # rest) resultString =
     (case ticket_line ticket of
        Inl error \<Rightarrow> Inl error
      | Inr line \<Rightarrow> append_lines rest (resultString @ line))"

text \<open>
  The \<^verbatim>\<open>forEach\<close> over \<^verbatim>\<open>Object.keys(groupedTickets)\<close>. A key of that list is an
  own property; for any other name the group would be skipped and counted as empty.
\<close>

fun render_groups :: "groups \<Rightarrow> string list \<Rightarrow> string \<Rightarrow> world \<Rightarrow> (js_error + string) \<times> world" where
  "render_groups grouped [] resultString s = (Inr resultString, s)"
| "render_groups grouped (projectName # rest) resultString s =
     (let arr = (case map_of grouped projectName of Some a \<Rightarrow> a | None \<Rightarrow> [])
      in case append_lines arr (resultString @ ''*'' @ projectName @ ''*:\<newline>'') of
           Inl error \<Rightarrow> (Inl error, s)
         | Inr resultString1 \<Rightarrow>
             render_groups grouped rest (resultString1 @ ''\<newline>'')
               (s @ [ConsoleLog [Str ''Found '', Num (length arr), Str '' tickets for project '',
                                 Str projectName]]))"

definition formatReleaseNote :: "json list \<Rightarrow> world \<Rightarrow> (js_error + string) \<times> world" where
  "formatReleaseNote tickets s =
     (case reduce_tickets tickets [] of
        Inl error \<Rightarrow> (Inl error, s)
      | Inr groupedTickets \<Rightarrow>
          (case render_groups groupedTickets (object_keys groupedTickets) '''' s of
             (Inl error, s1) \<Rightarrow> (Inl error, s1)
           | (Inr resultString, s1) \<Rightarrow>
               (case map_of groupedTickets ''Enhancement'' of
                  Some arr \<Rightarrow>
                    (case append_lines arr (resultString @ ''*Enhancements*:\<newline>'') of
                       Inl error \<Rightarrow> (Inl error, s1)
                     | Inr resultString1 \<Rightarrow> (Inr (resultString1 @ ''\<newline>''), s1))
                | None \<Rightarrow> (Inr resultString, s1))))"

section \<open>The run\<close>

text \<open>The five fetches of one project, in the order of the source.\<close>

definition project_tickets :: "linear_issues \<Rightarrow> project \<Rightarrow> world \<Rightarrow> ticket list \<times> world" where
  "project_tickets issues project s =
     (let (doneTickets, s1) = getAllTicketsForProject issues project LINEAR_DONE_COLUMN s;
          (stagingTickets, s2) = getAllTicketsForProject issues project LINEAR_STAGING_COLUMN s1;
          (inReviewTickets, s3) = getAllTicketsForProject issues project LINEAR_IN_REVIEW_COLUMN s2;
          (inProgressTickets, s4) = getAllTicketsForProject issues project LINEAR_IN_PROGRESS_COLUMN s3;
          (todoTickets, s5) = getAllTicketsForProject issues project LINEAR_TODO_COLUMN s4
      in (doneTickets @ stagingTickets @ inReviewTickets @ inProgressTickets @ todoTickets, s5))"

text \<open>The loop \<^verbatim>\<open>for (const project of projects)\<close>.\<close>

fun projects_loop :: "linear_issues \<Rightarrow> project list \<Rightarrow> ticket list \<Rightarrow> world \<Rightarrow> ticket list \<times> world" where
  "projects_loop issues [] allTickets s = (allTickets, s)"
| "projects_loop issues (project # rest) allTickets s =
     (let (tickets, s1) = project_tickets issues project s
      in projects_loop issues rest (allTickets @ tickets) s1)"

text \<open>\<^verbatim>\<open>generateReleaseNote\<close> up to the call of \<^verbatim>\<open>summariseTickets\<close>: the value of \<^verbatim>\<open>allTickets\<close>.\<close>

definition fetch_all_tickets :: "js_error + project list \<Rightarrow> linear_issues \<Rightarrow> world \<Rightarrow> ticket list \<times> world" where
  "fetch_all_tickets linear_projects issues s =
     (let (projects, s0) = getAllProjects linear_projects s;
          (allTickets, s1) = projects_loop issues projects [] s0;
          (unprojectedDoneTickets, s2) = getAllUnprojectedTickets issues LINEAR_DONE_COLUMN s1;
          (unprojectedStagingTickets, s3) = getAllUnprojectedTickets issues LINEAR_STAGING_COLUMN s2;
          (unprojectedInReviewTickets, s4) = getAllUnprojectedTickets issues LINEAR_IN_REVIEW_COLUMN s3;
          (unprojectedInProgressTickets, s5) = getAllUnprojectedTickets issues LINEAR_IN_PROGRESS_COLUMN s4;
          (unprojectedTodoTickets, s6) = getAllUnprojectedTickets issues LINEAR_TODO_COLUMN s5
      in (allTickets @ unprojectedDoneTickets @ unprojectedStagingTickets @ unprojectedInReviewTickets @
          unprojectedInProgressTickets @ unprojectedTodoTickets, s6))"

text \<open>\<open>Inr ()\<close> is the normal end of the run, \<open>Inl\<close> the rejection of its promise.\<close>

definition generateReleaseNote ::
  "js_error + project list \<Rightarrow> linear_issues \<Rightarrow> completion_api \<Rightarrow> json_parse \<Rightarrow> world \<Rightarrow> (js_error + unit) \<times> world" where
  "generateReleaseNote linear_projects issues api parse s =
     (let (allTickets, s1) = fetch_all_tickets linear_projects issues s
      in case summariseTickets api parse allTickets s1 of
           (Inl error, s2) \<Rightarrow> (Inl error, s2)
         | (Inr summarisedTickets, s2) \<Rightarrow>
             (case formatReleaseNote summarisedTickets s2 of
                (Inl error, s3) \<Rightarrow> (Inl error, s3)
              | (Inr releaseNote, s3) \<Rightarrow>
                  (Inr (), s3 @ [ConsoleLog [Str ''\<newline>Final release note:\<newline>''],
                                 ConsoleLog [Str releaseNote]])))"

section \<open>Vocabulary of the claims\<close>

text \<open>The events of round \<open>k\<close> of the retry loop when the call fails with \<open>error\<close>.\<close>

definition backoff_round :: "string \<Rightarrow> (nat \<Rightarrow> js_error) \<Rightarrow> nat \<Rightarrow> event list" where
  "backoff_round c errors k =
     [CompletionsCreate c, ConsoleError [Str ''Error querying OpenAI API:'', Err (errors k)],
      ConsoleLog [Str ''Retrying in '', Num (2 ^ k), Str '' seconds...''],
      SetTimeout (2 ^ k * 1000)]"


text \<open>The console line that precedes the call of \<^verbatim>\<open>summarise\<close> for the batch at index \<open>i\<close>.\<close>

definition batch_line :: "string list \<Rightarrow> nat \<Rightarrow> ticket list \<Rightarrow> event" where
  "batch_line ticketBatch i tickets =
     ConsoleLog [Str ''Summarising '', Num (length ticketBatch), Str '' tickets - batch: ['', Num i,
                 Str '', '', Num (i + BATCH_SIZE), Str ''] out of '', Num (length tickets), Str ''...'']"

text \<open>A tracker issue whose lazy fields resolve, and the text its callback gives.\<close>

definition sample_ticket :: ticket where
  "sample_ticket =
     \<lparr>ticket_identifier = ''E-1'', ticket_title = ''Update DB'', ticket_priorityLabel = ''High'',
      ticket_estimate = ''3'', ticket_assignee = Inr (Some ''Ada''), ticket_labels = Inr [''bug''],
      ticket_project = Inr None, ticket_url = ''https://x/E-1'', ticket_description = ''Upgrade'',
      ticket_settled = 0\<rparr>"

definition sample_text :: string where
  "sample_text = (case ticket_text sample_ticket of Inr t \<Rightarrow> t | Inl error \<Rightarrow> '''')"

text \<open>A service that rejects every call with a code that is a string, but not one of the two retried.\<close>

definition always_invalid_key :: completion_api where
  "always_invalid_key n c = Inl (JsError ''AuthenticationError'' ''Incorrect API key'' (Some ''invalid_api_key''))"

text \<open>A service that answers every call with the given text.\<close>

definition answers :: "string \<Rightarrow> chat_completion" where
  "answers t = ChatCompletion (Some [Some (ChatChoice (Some (ChatMessage (Some t))))])"

text \<open>A parser that knows three texts and rejects every other text.\<close>

definition toy_parse :: json_parse where
  "toy_parse t =
     (if t = ''[]'' then Inr (JArray [])
      else if t = ''{}'' then Inr (JObject [])
      else if t = ''[{}]'' then Inr (JArray [JObject []])
      else Inl (JsError ''SyntaxError'' ''Unexpected token'' None))"

text \<open>The number of batches: \<open>n / b\<close> rounded up.\<close>

definition ceil_div :: "nat \<Rightarrow> nat \<Rightarrow> nat" where
  "ceil_div n b = (n + b - 1) div b"

text \<open>A service that rejects the first call as rate limited and answers every later call.\<close>

definition rate_limited_once :: completion_api where
  "rate_limited_once n c =
     (if n = 0 then Inl (JsError ''RateLimitError'' ''Too many requests'' (Some ''rate_limit''))
      else Inr (answers ''[{}]''))"

text \<open>The error of a call that the service rejects as rate limited.\<close>

definition rate_limit_error :: js_error where
  "rate_limit_error = JsError ''RateLimitError'' ''Too many requests'' (Some ''rate_limit'')"

text \<open>
  A service that rejects the first call as rate limited, answers the second call with a
  text that is not JSON and every later call with JSON.
\<close>

definition garbled_after_rate_limit :: completion_api where
  "garbled_after_rate_limit n c =
     (if n = 0 then Inl rate_limit_error
      else Inr (answers (if n = 1 then ''oops'' else ''[{}]'')))"

text \<open>
  A service that rejects the first call as rate limited and answers every later call with a
  message that has no content.
\<close>

definition empty_after_rate_limit :: completion_api where
  "empty_after_rate_limit n c =
     (if n = 0 then Inl rate_limit_error
      else Inr (ChatCompletion (Some [Some (ChatChoice (Some (ChatMessage None)))])))"

text \<open>The tickets a fetch contributes: the nodes of the answer, none for a rejected query.\<close>

fun fetched :: "js_error + ticket list \<Rightarrow> ticket list" where
  "fetched (Inr nodes) = nodes"
| "fetched (Inl error) = []"

text \<open>The five columns, in the order \<^verbatim>\<open>generateReleaseNote\<close> fetches them.\<close>

definition columns :: "string list" where
  "columns = [LINEAR_DONE_COLUMN, LINEAR_STAGING_COLUMN, LINEAR_IN_REVIEW_COLUMN,
              LINEAR_IN_PROGRESS_COLUMN, LINEAR_TODO_COLUMN]"

text \<open>A tracker that rejects the query for one project and column and answers every other query.\<close>

definition broken_tracker :: linear_issues where
  "broken_tracker f =
     (if f = IssueFilter (Some ''p1'') ''Done''
      then Inl (JsError ''LinearError'' ''Network error'' None)
      else if f = IssueFilter (Some ''p1'') ''Staging'' then Inr [sample_ticket]
      else Inr [])"

text \<open>
  The vocabulary of the formatter claims. \<open>project_key\<close> is the property key under which
  the reducer files a ticket; \<open>key_text\<close> and \<open>line_text\<close> read a key and a line that are
  known to exist.
\<close>

definition project_key :: "json \<Rightarrow> js_error + string" where
  "project_key ticket = field_text ticket ''project''"

definition key_text :: "json \<Rightarrow> string" where
  "key_text ticket = (case project_key ticket of Inr key \<Rightarrow> key | Inl error \<Rightarrow> '''')"

definition line_text :: "json \<Rightarrow> string" where
  "line_text ticket = (case ticket_line ticket of Inr line \<Rightarrow> line | Inl error \<Rightarrow> '''')"

text \<open>The elements of a list in the order of their first occurrence.\<close>

fun first_seen :: "'a list \<Rightarrow> 'a list" where
  "first_seen [] = []"
| "first_seen (x # xs) = x # filter (\<lambda>y. y \<noteq> x) (first_seen xs)"

text \<open>The tickets filed under a key, in input order.\<close>

definition tickets_of :: "json list \<Rightarrow> string \<Rightarrow> json list" where
  "tickets_of tickets key = filter (\<lambda>ticket. project_key ticket = Inr key) tickets"

text \<open>The grouping by project with the groups in first-seen order.\<close>

definition grouping :: "json list \<Rightarrow> groups" where
  "grouping tickets = map (\<lambda>key. (key, tickets_of tickets key)) (first_seen (map key_text tickets))"

text \<open>A group as the release note shows it: the header, one line per ticket, a blank line.\<close>

definition group_text :: "json list \<Rightarrow> string \<Rightarrow> string" where
  "group_text tickets key =
     ''*'' @ key @ ''*:\<newline>'' @ concat (map line_text (tickets_of tickets key)) @ ''\<newline>''"

text \<open>The second rendering of the group named Enhancement, when there is one.\<close>

definition enhancements_text :: "json list \<Rightarrow> string" where
  "enhancements_text tickets =
     (if tickets_of tickets ''Enhancement'' = [] then ''''
      else ''*Enhancements*:\<newline>'' @ concat (map line_text (tickets_of tickets ''Enhancement'')) @ ''\<newline>'')"

text \<open>A summarised ticket of the shape the prompt asks for: an object with five string fields.\<close>

definition summarised_ticket :: "string \<Rightarrow> string \<Rightarrow> string \<Rightarrow> string \<Rightarrow> string \<Rightarrow> json" where
  "summarised_ticket project category summary ident url =
     JObject [(''identifier'', JString ident), (''url'', JString url), (''summary'', JString summary),
              (''category'', JString category), (''project'', JString project)]"

text \<open>Three tickets, two of them in the group named Enhancement.\<close>

definition enhancement_tickets :: "json list" where
  "enhancement_tickets =
     [summarised_ticket ''Enhancement'' ''DB'' ''Update DB'' ''E-1'' ''u1'',
      summarised_ticket ''API'' ''CI'' ''Fix CI'' ''E-2'' ''u2'',
      summarised_ticket ''Enhancement'' ''UI'' ''Add button'' ''E-3'' ''u3'']"

text \<open>Two tickets, the second in a project whose name is an array index.\<close>

definition numbered_tickets :: "json list" where
  "numbered_tickets =
     [summarised_ticket ''API'' ''DB'' ''Update DB'' ''E-1'' ''u1'',
      summarised_ticket ''2'' ''CI'' ''Fix CI'' ''E-2'' ''u2'']"


text \<open>
  \<^verbatim>\<open>summariseTickets\<close> writes the batch line once before every call of
  \<^verbatim>\<open>summarise\<close> and nothing else writes a line of that shape, so the number of batch
  lines is the number of calls of \<^verbatim>\<open>summarise\<close>.
\<close>

fun is_num :: "log_part \<Rightarrow> bool" where
  "is_num (Num n) = True"
| "is_num p = False"

definition is_batch_line :: "event \<Rightarrow> bool" where
  "is_batch_line e =
     (case e of
        ConsoleLog parts \<Rightarrow>
          length parts = 9 \<and> is_num (parts ! 1) \<and> is_num (parts ! 3) \<and> is_num (parts ! 5) \<and>
          is_num (parts ! 7) \<and>
          parts = [Str ''Summarising '', parts ! 1, Str '' tickets - batch: ['', parts ! 3, Str '', '',
                   parts ! 5, Str ''] out of '', parts ! 7, Str ''...'']
      | _ \<Rightarrow> False)"

definition summarise_calls :: "world \<Rightarrow> nat" where
  "summarise_calls s = length (filter is_batch_line s)"

section \<open>Properties of the retry loop\<close>

lemma completions_append: "completions (s @ t) = completions s + completions t"
  by (simp add: completions_def)

lemma completions_Nil: "completions [] = 0"
  by (simp add: completions_def)

lemma completions_Cons:
  "completions (e # s) = (if is_create e then Suc (completions s) else completions s)"
  by (simp add: completions_def)

lemma timeouts_append: "timeouts (s @ t) = timeouts s @ timeouts t"
  by (simp add: timeouts_def)

lemma summarise_retry_success:
  "attempt < maxRetries \<Longrightarrow> api (completions s) c = Inr result \<Longrightarrow>
   summarise_retry api c attempt s = (Inr (returned_content result), s @ [CompletionsCreate c])"
  by (subst summarise_retry.simps) simp

lemma summarise_retry_rethrow:
  "attempt < maxRetries \<Longrightarrow> api (completions s) c = Inl error \<Longrightarrow> \<not> retryable error \<Longrightarrow>
   summarise_retry api c attempt s =
     (Inl error, s @ [CompletionsCreate c, ConsoleError [Str ''Error querying OpenAI API:'', Err error]])"
  by (subst summarise_retry.simps) simp

lemma summarise_retry_backoff:
  "attempt < maxRetries \<Longrightarrow> api (completions s) c = Inl error \<Longrightarrow> retryable error \<Longrightarrow>
   summarise_retry api c attempt s =
     summarise_retry api c (Suc attempt)
       (s @ [CompletionsCreate c, ConsoleError [Str ''Error querying OpenAI API:'', Err error],
             ConsoleLog [Str ''Retrying in '', Num (2 ^ attempt), Str '' seconds...''],
             SetTimeout (2 ^ attempt * 1000)])"
  by (subst summarise_retry.simps) simp

lemma summarise_retry_exhausted:
  "\<not> attempt < maxRetries \<Longrightarrow> summarise_retry api c attempt s = (Inr '''', s)"
  by (subst summarise_retry.simps) simp

text \<open>The four outcomes of one round of the loop, as a case rule.\<close>

lemma summarise_retry_cases:
  obtains
    (exhausted) "\<not> attempt < maxRetries"
  | (success) result where "attempt < maxRetries" "api (completions s) c = Inr result"
  | (rethrow) error where "attempt < maxRetries" "api (completions s) c = Inl error" "\<not> retryable error"
  | (backoff) error where "attempt < maxRetries" "api (completions s) c = Inl error" "retryable error"
  by (cases "attempt < maxRetries"; cases "api (completions s) c") auto

lemma completions_round:
  "completions (s @ [CompletionsCreate c, ConsoleError a, ConsoleLog b, SetTimeout ms]) = Suc (completions s)"
  by (simp add: completions_def)

lemma completions_create: "completions (s @ [CompletionsCreate c]) = Suc (completions s)"
  by (simp add: completions_def)

lemma completions_create_error: "completions (s @ [CompletionsCreate c, ConsoleError a]) = Suc (completions s)"
  by (simp add: completions_def)

lemma completions_console [simp]:
  "completions (s @ [ConsoleLog a]) = completions s"
  "completions (s @ [ConsoleError b]) = completions s"
  "completions (s @ [ConsoleLog a, ConsoleLog a']) = completions s"
  by (simp_all add: completions_def)

lemma summarise_retry_completions_le:
  "completions (snd (summarise_retry api c attempt s)) \<le> completions s + (maxRetries - attempt)"
proof (induction "maxRetries - attempt" arbitrary: attempt s)
  case 0
  then show ?case by (simp add: summarise_retry_exhausted)
next
  case (Suc n)
  then have lt: "attempt < maxRetries" and n: "n = maxRetries - Suc attempt" by auto
  show ?case
  proof (cases rule: summarise_retry_cases [where attempt=attempt and api=api and s=s and c=c])
    case exhausted
    with lt show ?thesis by simp
  next
    case (success result)
    then show ?thesis by (simp add: summarise_retry_success completions_create)
  next
    case (rethrow error)
    then show ?thesis by (simp add: summarise_retry_rethrow completions_create_error)
  next
    case (backoff error)
    let ?s1 = "s @ [CompletionsCreate c, ConsoleError [Str ''Error querying OpenAI API:'', Err error],
             ConsoleLog [Str ''Retrying in '', Num (2 ^ attempt), Str '' seconds...''],
             SetTimeout (2 ^ attempt * 1000)]"
    from Suc.hyps(1) [OF n]
    have "completions (snd (summarise_retry api c (Suc attempt) ?s1))
            \<le> completions ?s1 + (maxRetries - Suc attempt)" .
    moreover have "completions ?s1 = Suc (completions s)"
      by (rule completions_round)
    ultimately have "completions (snd (summarise_retry api c (Suc attempt) ?s1))
            \<le> completions s + (maxRetries - attempt)"
      using lt by simp
    with backoff show ?thesis
      by (simp only: summarise_retry_backoff)
  qed
qed

text \<open>
  A loop that is left with a text other than the empty one made one call more than it
  waited: every wait is followed by another call, and the last call succeeded.
\<close>

lemma summarise_retry_accounting:
  "summarise_retry api c attempt s = (Inr text, s') \<Longrightarrow> text \<noteq> '''' \<Longrightarrow>
   completions s' + length (timeouts s) = Suc (completions s + length (timeouts s'))"
proof (induction "maxRetries - attempt" arbitrary: attempt s)
  case 0
  then show ?case by (simp add: summarise_retry_exhausted)
next
  case (Suc n)
  then have lt: "attempt < maxRetries" and n: "n = maxRetries - Suc attempt" by auto
  show ?case
  proof (cases rule: summarise_retry_cases [where attempt=attempt and api=api and s=s and c=c])
    case exhausted
    with lt show ?thesis by simp
  next
    case (success result)
    with Suc.prems show ?thesis
      by (auto simp: summarise_retry_success completions_create timeouts_append timeouts_def)
  next
    case (rethrow error)
    with Suc.prems show ?thesis by (simp add: summarise_retry_rethrow)
  next
    case (backoff error)
    let ?s1 = "s @ [CompletionsCreate c, ConsoleError [Str ''Error querying OpenAI API:'', Err error],
             ConsoleLog [Str ''Retrying in '', Num (2 ^ attempt), Str '' seconds...''],
             SetTimeout (2 ^ attempt * 1000)]"
    from backoff Suc.prems have "summarise_retry api c (Suc attempt) ?s1 = (Inr text, s')"
      by (simp add: summarise_retry_backoff)
    from Suc.hyps(1) [OF n this Suc.prems(2)]
    have "completions s' + length (timeouts ?s1) = Suc (completions ?s1 + length (timeouts s'))" .
    moreover have "length (timeouts ?s1) = Suc (length (timeouts s))"
      by (simp add: timeouts_def)
    ultimately show ?thesis by (simp add: completions_round)
  qed
qed

lemma summarise_first_success:
  "api (completions s) (join ''\<newline>---\<newline>'' tickets) = Inr result \<Longrightarrow>
   summarise api parse tickets s =
     (if returned_content result = '''' then
        (Inl no_response, s @ [CompletionsCreate (join ''\<newline>---\<newline>'' tickets)])
      else
        (case parse (returned_content result) of
           Inr parsedContent \<Rightarrow>
             (Inr (if \<not> isArray parsedContent then [parsedContent] else array_elements parsedContent),
              s @ [CompletionsCreate (join ''\<newline>---\<newline>'' tickets)])
         | Inl error \<Rightarrow>
             (Inr [], s @ [CompletionsCreate (join ''\<newline>---\<newline>'' tickets),
                           ConsoleError [Str ''Error parsing OpenAI API response:'', Err error]])))"
  by (simp add: summarise_def summarise_retry_success maxRetries_def split: sum.splits)

lemma summarise_after_retry:
  "summarise_retry api (join ''\<newline>---\<newline>'' tickets) 0 s = (r, s1) \<Longrightarrow>
   summarise api parse tickets s =
     (case r of
        Inl error \<Rightarrow> (Inl error, s1)
      | Inr returnedContent \<Rightarrow>
          if returnedContent = '''' then (Inl no_response, s1)
          else (case parse returnedContent of
                  Inr parsedContent \<Rightarrow>
                    (Inr (if \<not> isArray parsedContent then [parsedContent]
                          else array_elements parsedContent), s1)
                | Inl error \<Rightarrow>
                    (Inr [], s1 @ [ConsoleError [Str ''Error parsing OpenAI API response:'', Err error]])))"
  by (simp add: summarise_def)

lemma summarise_completions_le:
  "completions (snd (summarise api parse tickets s)) \<le> completions s + maxRetries"
proof -
  obtain r s1 where r: "summarise_retry api (join ''\<newline>---\<newline>'' tickets) 0 s = (r, s1)"
    by (cases "summarise_retry api (join ''\<newline>---\<newline>'' tickets) 0 s")
  have "completions s1 \<le> completions s + maxRetries"
    using summarise_retry_completions_le [of api "join ''\<newline>---\<newline>'' tickets" 0 s] r by simp
  moreover have "completions (snd (summarise api parse tickets s)) = completions s1"
    by (simp add: summarise_after_retry [OF r] split: sum.splits)
  ultimately show ?thesis by simp
qed

lemma summarise_accounting:
  assumes "summarise api parse tickets s = (Inr summarised, s')"
  shows "completions s' + length (timeouts s) = Suc (completions s + length (timeouts s'))"
proof -
  obtain r s1 where r: "summarise_retry api (join ''\<newline>---\<newline>'' tickets) 0 s = (r, s1)"
    by (cases "summarise_retry api (join ''\<newline>---\<newline>'' tickets) 0 s")
  from assms summarise_after_retry [OF r, of parse]
  obtain returned where returned: "r = Inr returned" "returned \<noteq> ''''"
    and s': "completions s' = completions s1" "timeouts s' = timeouts s1"
    by (cases r) (auto split: if_splits sum.splits simp: timeouts_def)
  from summarise_retry_accounting [of api _ 0 s returned s1] r returned
  have "completions s1 + length (timeouts s) = Suc (completions s + length (timeouts s1))"
    by simp
  with s' show ?thesis by simp
qed

lemma timeouts_Nil: "timeouts [] = []"
  by (simp add: timeouts_def)

lemma completions_backoff_round: "completions (s @ backoff_round c errors k) = Suc (completions s)"
  by (simp add: backoff_round_def completions_round)


text \<open>
  The loop when the service answers attempt \<open>k\<close> after failing the attempts before it
  with errors that are retried.
\<close>

lemma summarise_retry_answered:
  "attempt \<le> k \<Longrightarrow> k < maxRetries \<Longrightarrow>
   (\<And>j. attempt \<le> j \<Longrightarrow> j < k \<Longrightarrow>
         api (completions s + (j - attempt)) c = Inl (errors j) \<and> retryable (errors j)) \<Longrightarrow>
   api (completions s + (k - attempt)) c = Inr result \<Longrightarrow>
   summarise_retry api c attempt s =
     (Inr (returned_content result),
      s @ concat (map (backoff_round c errors) [attempt..<k]) @ [CompletionsCreate c])"
proof (induction "k - attempt" arbitrary: attempt s)
  case 0
  then have "attempt = k" by simp
  with 0 show ?case by (simp add: summarise_retry_success)
next
  case (Suc n)
  then have lt: "attempt < k" and n: "n = k - Suc attempt" by auto
  from lt Suc.prems(2) have ltm: "attempt < maxRetries" by simp
  from Suc.prems(3) [of attempt] lt
  have here: "api (completions s) c = Inl (errors attempt)" "retryable (errors attempt)" by auto
  have step: "summarise_retry api c attempt s =
      summarise_retry api c (Suc attempt) (s @ backoff_round c errors attempt)"
    using summarise_retry_backoff [of attempt api s c "errors attempt"] ltm here
    by (simp add: backoff_round_def)
  have shift: "Suc (completions s) + (j - Suc attempt) = completions s + (j - attempt)"
    if "Suc attempt \<le> j" for j
    using that by arith
  have later: "api (completions (s @ backoff_round c errors attempt) + (j - Suc attempt)) c = Inl (errors j)
      \<and> retryable (errors j)" if "Suc attempt \<le> j" "j < k" for j
    using Suc.prems(3) [of j] that shift [of j] by (simp add: completions_backoff_round)
  have last: "api (completions (s @ backoff_round c errors attempt) + (k - Suc attempt)) c = Inr result"
    using Suc.prems(4) shift [of k] lt by (simp add: completions_backoff_round)
  from lt have le: "Suc attempt \<le> k" by simp
  from Suc.hyps(1) [OF n le Suc.prems(2) later last]
  have rest: "summarise_retry api c (Suc attempt) (s @ backoff_round c errors attempt) =
      (Inr (returned_content result),
       (s @ backoff_round c errors attempt) @
         concat (map (backoff_round c errors) [Suc attempt..<k]) @ [CompletionsCreate c])"
    by blast
  have upt: "[attempt..<k] = attempt # [Suc attempt..<k]"
    using lt by (simp add: upt_conv_Cons)
  have "summarise_retry api c attempt s =
      summarise_retry api c (Suc attempt) (s @ backoff_round c errors attempt)"
    by (rule step)
  also have "\<dots> = (Inr (returned_content result),
       (s @ backoff_round c errors attempt) @
         concat (map (backoff_round c errors) [Suc attempt..<k]) @ [CompletionsCreate c])"
    by (rule rest)
  also have "\<dots> = (Inr (returned_content result),
       s @ concat (map (backoff_round c errors) [attempt..<k]) @ [CompletionsCreate c])"
    by (simp add: upt)
  finally show ?case .
qed

lemma summarise_answered:
  assumes "k < maxRetries"
    and "\<forall>j<k. api (completions s + j) (join ''\<newline>---\<newline>'' tickets) = Inl (errors j) \<and> retryable (errors j)"
    and "api (completions s + k) (join ''\<newline>---\<newline>'' tickets) = Inr result"
  shows "summarise api parse tickets s =
     (if returned_content result = '''' then
        (Inl no_response,
         s @ concat (map (backoff_round (join ''\<newline>---\<newline>'' tickets) errors) [0..<k]) @
           [CompletionsCreate (join ''\<newline>---\<newline>'' tickets)])
      else
        (case parse (returned_content result) of
           Inr parsedContent \<Rightarrow>
             (Inr (if \<not> isArray parsedContent then [parsedContent] else array_elements parsedContent),
              s @ concat (map (backoff_round (join ''\<newline>---\<newline>'' tickets) errors) [0..<k]) @
                [CompletionsCreate (join ''\<newline>---\<newline>'' tickets)])
         | Inl error \<Rightarrow>
             (Inr [],
              s @ concat (map (backoff_round (join ''\<newline>---\<newline>'' tickets) errors) [0..<k]) @
                [CompletionsCreate (join ''\<newline>---\<newline>'' tickets),
                 ConsoleError [Str ''Error parsing OpenAI API response:'', Err error]])))"
proof -
  have "summarise_retry api (join ''\<newline>---\<newline>'' tickets) 0 s =
     (Inr (returned_content result),
      s @ concat (map (backoff_round (join ''\<newline>---\<newline>'' tickets) errors) [0..<k]) @
        [CompletionsCreate (join ''\<newline>---\<newline>'' tickets)])"
    using assms by (intro summarise_retry_answered) simp_all
  from summarise_after_retry [OF this, of parse] show ?thesis
    by (simp split: sum.splits)
qed

lemma retryable_rate_limit_error: "retryable rate_limit_error"
  by (simp add: retryable_def isRateLimitError_def rate_limit_error_def)

section \<open>Properties of the batch loop\<close>

lemma summariseTickets_loop_done:
  "\<not> i < length tickets \<Longrightarrow>
   summariseTickets_loop api parse tickets i summarisedTickets s = (Inr summarisedTickets, s)"
  by (subst summariseTickets_loop.simps) simp

lemma summariseTickets_loop_reject:
  "i < length tickets \<Longrightarrow>
   promise_all (map ticket_callback (take BATCH_SIZE (drop i tickets))) = Inl error \<Longrightarrow>
   summariseTickets_loop api parse tickets i summarisedTickets s = (Inl error, s)"
  by (subst summariseTickets_loop.simps) simp

lemma summariseTickets_loop_throw:
  "i < length tickets \<Longrightarrow>
   promise_all (map ticket_callback (take BATCH_SIZE (drop i tickets))) = Inr ticketBatch \<Longrightarrow>
   summarise api parse ticketBatch (s @ [batch_line ticketBatch i tickets]) = (Inl error, s1) \<Longrightarrow>
   summariseTickets_loop api parse tickets i summarisedTickets s = (Inl error, s1)"
  by (subst summariseTickets_loop.simps) (simp add: batch_line_def)

lemma summariseTickets_loop_next:
  "i < length tickets \<Longrightarrow>
   promise_all (map ticket_callback (take BATCH_SIZE (drop i tickets))) = Inr ticketBatch \<Longrightarrow>
   summarise api parse ticketBatch (s @ [batch_line ticketBatch i tickets]) = (Inr summarisedTicketBatch, s1) \<Longrightarrow>
   summariseTickets_loop api parse tickets i summarisedTickets s =
     summariseTickets_loop api parse tickets (i + BATCH_SIZE) (summarisedTickets @ summarisedTicketBatch)
       (s1 @ [ConsoleLog [Str ''Summarised results:''], ConsoleLog [Json summarisedTicketBatch]])"
  by (subst summariseTickets_loop.simps) (simp add: batch_line_def)

lemma summariseTickets_loop_cases:
  obtains
    (finished) "\<not> i < length tickets"
  | (reject) error where "i < length tickets"
      "promise_all (map ticket_callback (take BATCH_SIZE (drop i tickets))) = Inl error"
  | (throw) ticketBatch error s1 where "i < length tickets"
      "promise_all (map ticket_callback (take BATCH_SIZE (drop i tickets))) = Inr ticketBatch"
      "summarise api parse ticketBatch (s @ [batch_line ticketBatch i tickets]) = (Inl error, s1)"
  | (continue) ticketBatch summarisedTicketBatch s1 where "i < length tickets"
      "promise_all (map ticket_callback (take BATCH_SIZE (drop i tickets))) = Inr ticketBatch"
      "summarise api parse ticketBatch (s @ [batch_line ticketBatch i tickets]) = (Inr summarisedTicketBatch, s1)"
proof (cases "i < length tickets")
  case False
  then show ?thesis by (rule finished)
next
  case lt: True
  show ?thesis
  proof (cases "promise_all (map ticket_callback (take BATCH_SIZE (drop i tickets)))")
    case (Inl error)
    with lt show ?thesis by (rule reject)
  next
    case (Inr ticketBatch)
    obtain r s1 where r: "summarise api parse ticketBatch (s @ [batch_line ticketBatch i tickets]) = (r, s1)"
      by (cases "summarise api parse ticketBatch (s @ [batch_line ticketBatch i tickets])")
    show ?thesis
    proof (cases r)
      case (Inl error)
      with lt Inr r show ?thesis by (auto intro: throw)
    next
      case (Inr summarisedTicketBatch)
      with lt \<open>promise_all _ = Inr ticketBatch\<close> r show ?thesis by (auto intro: continue)
    qed
  qed
qed

lemma completions_batch_line [simp]: "completions (s @ [batch_line b i tickets]) = completions s"
  by (simp add: batch_line_def)

lemma timeouts_console [simp]:
  "timeouts (s @ [ConsoleLog a]) = timeouts s"
  "timeouts (s @ [ConsoleError b]) = timeouts s"
  "timeouts (s @ [ConsoleLog a, ConsoleLog a']) = timeouts s"
  "timeouts (s @ [batch_line b' i tickets]) = timeouts s"
  by (simp_all add: timeouts_def batch_line_def)

lemma summarise_first_rethrow:
  "api (completions s) (join ''\<newline>---\<newline>'' tickets) = Inl error \<Longrightarrow> \<not> retryable error \<Longrightarrow>
   summarise api parse tickets s =
     (Inl error, s @ [CompletionsCreate (join ''\<newline>---\<newline>'' tickets),
                      ConsoleError [Str ''Error querying OpenAI API:'', Err error]])"
  by (simp add: summarise_def summarise_retry_rethrow maxRetries_def)

lemma ticket_text_sample: "ticket_text sample_ticket = Inr sample_text"
  by (simp add: sample_text_def ticket_text_def sample_ticket_def)

lemma ticket_callback_sample: "ticket_callback sample_ticket = (0, Inr sample_text)"
  unfolding ticket_callback_def ticket_text_sample by (simp add: sample_ticket_def)

lemma first_rejection_replicate: "first_rejection (replicate n (instant, Inr t)) = None"
  by (induction n) simp_all

lemma fulfilled_replicate: "fulfilled (replicate n (instant, Inr t)) = replicate n t"
  by (induction n) simp_all

lemma promise_all_replicate: "promise_all (replicate n (instant, Inr t)) = Inr (replicate n t)"
  by (simp add: promise_all_def first_rejection_replicate fulfilled_replicate)

lemma promise_all_single: "promise_all [(instant, Inr t)] = Inr [t]"
  by (simp add: promise_all_def)

lemma div15_step: "0 < (m::nat) \<Longrightarrow> (m + 14) div 15 = Suc ((m - 15 + 14) div 15)"
proof (cases "15 \<le> m")
  case True
  then obtain k where k: "m = k + 15"
    using le_Suc_ex add.commute by metis
  show ?thesis unfolding k by simp
next
  case False
  assume "0 < m"
  with False obtain k where k: "m = Suc k" "k < 14"
    by (cases m) auto
  then show ?thesis by simp
qed

lemma ceil_div_step:
  "i < n \<Longrightarrow> ceil_div (n - i) BATCH_SIZE = Suc (ceil_div (n - (i + BATCH_SIZE)) BATCH_SIZE)"
proof -
  assume "i < n"
  then have "0 < n - i" by simp
  from div15_step [OF this] have "(n - i + 14) div 15 = Suc ((n - i - 15 + 14) div 15)" .
  moreover have "n - i - 15 = n - (i + 15)" by simp
  ultimately have step: "(n - i + 14) div 15 = Suc ((n - (i + 15) + 14) div 15)" by (simp only:)
  have a: "n - i + 15 - 1 = n - i + 14" and b: "n - (i + 15) + 15 - 1 = n - (i + 15) + 14"
    by simp_all
  show ?thesis unfolding ceil_div_def BATCH_SIZE_def a b by (rule step)
qed

lemma ceil_div_0: "ceil_div 0 BATCH_SIZE = 0"
  by (simp add: ceil_div_def BATCH_SIZE_def)

text \<open>
  A run of the loop that returns made one call for every batch and one more for every
  wait.
\<close>

lemma summariseTickets_loop_accounting:
  "summariseTickets_loop api parse tickets i summarisedTickets s = (Inr out, s') \<Longrightarrow>
   completions s' + length (timeouts s) =
     completions s + length (timeouts s') + ceil_div (length tickets - i) BATCH_SIZE"
proof (induction "length tickets - i" arbitrary: i summarisedTickets s rule: less_induct)
  case less
  show ?case
  proof (cases rule: summariseTickets_loop_cases
      [where i = i and tickets = tickets and api = api and parse = parse and s = s])
    case finished
    with less.prems show ?thesis
      by (simp add: summariseTickets_loop_done ceil_div_0)
  next
    case (reject error)
    with less.prems show ?thesis
      by (simp add: summariseTickets_loop_reject)
  next
    case (throw ticketBatch error s1)
    with less.prems show ?thesis
      by (simp add: summariseTickets_loop_throw)
  next
    case (continue ticketBatch summarisedTicketBatch s1)
    let ?s2 = "s1 @ [ConsoleLog [Str ''Summarised results:''], ConsoleLog [Json summarisedTicketBatch]]"
    from continue less.prems
    have rest: "summariseTickets_loop api parse tickets (i + BATCH_SIZE)
        (summarisedTickets @ summarisedTicketBatch) ?s2 = (Inr out, s')"
      by (simp add: summariseTickets_loop_next)
    have smaller: "length tickets - (i + BATCH_SIZE) < length tickets - i"
      using continue(1) by (simp add: BATCH_SIZE_def)
    from less.hyps [OF smaller rest]
    have "completions s' + length (timeouts ?s2) =
        completions ?s2 + length (timeouts s') + ceil_div (length tickets - (i + BATCH_SIZE)) BATCH_SIZE" .
    moreover have "timeouts ?s2 = timeouts s1" "completions ?s2 = completions s1"
      by simp_all
    ultimately have later: "completions s' + length (timeouts s1) =
        completions s1 + length (timeouts s') + ceil_div (length tickets - (i + BATCH_SIZE)) BATCH_SIZE"
      by (simp only:)
    from summarise_accounting [OF continue(3)]
    have "completions s1 + length (timeouts (s @ [batch_line ticketBatch i tickets])) =
        Suc (completions (s @ [batch_line ticketBatch i tickets]) + length (timeouts s1))" .
    moreover have "timeouts (s @ [batch_line ticketBatch i tickets]) = timeouts s"
        "completions (s @ [batch_line ticketBatch i tickets]) = completions s"
      by simp_all
    ultimately have here: "completions s1 + length (timeouts s) = Suc (completions s + length (timeouts s1))"
      by (simp only:)
    from later here ceil_div_step [OF continue(1)] show ?thesis
      by linarith
  qed
qed

text \<open>Whatever the service answers, a batch costs at most \<open>maxRetries\<close> calls.\<close>

lemma summariseTickets_loop_bound:
  "completions (snd (summariseTickets_loop api parse tickets i summarisedTickets s)) \<le>
     completions s + maxRetries * ceil_div (length tickets - i) BATCH_SIZE"
proof (induction "length tickets - i" arbitrary: i summarisedTickets s rule: less_induct)
  case less
  show ?case
  proof (cases rule: summariseTickets_loop_cases
      [where i = i and tickets = tickets and api = api and parse = parse and s = s])
    case finished
    then show ?thesis
      by (simp add: summariseTickets_loop_done)
  next
    case (reject error)
    then show ?thesis
      by (simp add: summariseTickets_loop_reject)
  next
    case (throw ticketBatch error s1)
    from summarise_completions_le [of api parse ticketBatch "s @ [batch_line ticketBatch i tickets]"] throw(3)
    have "completions s1 \<le> completions s + maxRetries" by simp
    moreover have "maxRetries * ceil_div (length tickets - i) BATCH_SIZE =
        maxRetries + maxRetries * ceil_div (length tickets - (i + BATCH_SIZE)) BATCH_SIZE"
      by (simp add: ceil_div_step [OF throw(1)])
    moreover have same: "snd (summariseTickets_loop api parse tickets i summarisedTickets s) = s1"
      using throw by (simp add: summariseTickets_loop_throw)
    ultimately show ?thesis
      unfolding same by linarith
  next
    case (continue ticketBatch summarisedTicketBatch s1)
    let ?s2 = "s1 @ [ConsoleLog [Str ''Summarised results:''], ConsoleLog [Json summarisedTicketBatch]]"
    have smaller: "length tickets - (i + BATCH_SIZE) < length tickets - i"
      using continue(1) by (simp add: BATCH_SIZE_def)
    have same: "summariseTickets_loop api parse tickets i summarisedTickets s =
        summariseTickets_loop api parse tickets (i + BATCH_SIZE) (summarisedTickets @ summarisedTicketBatch) ?s2"
      using continue by (simp add: summariseTickets_loop_next)
    from less.hyps [OF smaller, of "summarisedTickets @ summarisedTicketBatch" ?s2]
    have "completions (snd (summariseTickets_loop api parse tickets (i + BATCH_SIZE)
          (summarisedTickets @ summarisedTicketBatch) ?s2)) \<le>
        completions ?s2 + maxRetries * ceil_div (length tickets - (i + BATCH_SIZE)) BATCH_SIZE" .
    moreover have "completions ?s2 = completions s1"
      by simp
    moreover from summarise_completions_le [of api parse ticketBatch "s @ [batch_line ticketBatch i tickets]"]
      continue(3)
    have "completions s1 \<le> completions s + maxRetries" by simp
    moreover have "maxRetries * ceil_div (length tickets - i) BATCH_SIZE =
        maxRetries + maxRetries * ceil_div (length tickets - (i + BATCH_SIZE)) BATCH_SIZE"
      by (simp add: ceil_div_step [OF continue(1)])
    ultimately show ?thesis
      unfolding same by linarith
  qed
qed

text \<open>The results of the batches already summarised stay in front of the results of the later batches.\<close>

lemma summariseTickets_loop_prefix:
  "summariseTickets_loop api parse tickets i summarisedTickets s = (Inr out, s') \<Longrightarrow>
   \<exists>later. out = summarisedTickets @ later"
proof (induction "length tickets - i" arbitrary: i summarisedTickets s rule: less_induct)
  case less
  show ?case
  proof (cases rule: summariseTickets_loop_cases
      [where i = i and tickets = tickets and api = api and parse = parse and s = s])
    case finished
    with less.prems show ?thesis
      by (simp add: summariseTickets_loop_done)
  next
    case (reject error)
    with less.prems show ?thesis
      by (simp add: summariseTickets_loop_reject)
  next
    case (throw ticketBatch error s1)
    with less.prems show ?thesis
      by (simp add: summariseTickets_loop_throw)
  next
    case (continue ticketBatch summarisedTicketBatch s1)
    let ?s2 = "s1 @ [ConsoleLog [Str ''Summarised results:''], ConsoleLog [Json summarisedTicketBatch]]"
    from continue less.prems
    have rest: "summariseTickets_loop api parse tickets (i + BATCH_SIZE)
        (summarisedTickets @ summarisedTicketBatch) ?s2 = (Inr out, s')"
      by (simp add: summariseTickets_loop_next)
    have smaller: "length tickets - (i + BATCH_SIZE) < length tickets - i"
      using continue(1) by (simp add: BATCH_SIZE_def)
    from less.hyps [OF smaller rest] obtain later
      where "out = (summarisedTickets @ summarisedTicketBatch) @ later" by blast
    then show ?thesis by simp
  qed
qed

lemma is_batch_line_simps [simp]:
  "is_batch_line (batch_line b i tickets)"
  "\<not> is_batch_line (CompletionsCreate c)"
  "\<not> is_batch_line (SetTimeout ms)"
  "\<not> is_batch_line (ConsoleError parts)"
  "\<not> is_batch_line (ConsoleLog [p1])"
  "\<not> is_batch_line (ConsoleLog [p1, p2, p3])"
  by (simp_all add: is_batch_line_def batch_line_def)

lemma summarise_calls_batch_line: "summarise_calls (s @ [batch_line b i tickets]) = Suc (summarise_calls s)"
  by (simp add: summarise_calls_def)

lemma summarise_calls_other [simp]:
  "summarise_calls (s @ [CompletionsCreate c]) = summarise_calls s"
  "summarise_calls (s @ [CompletionsCreate c, ConsoleError [Str a, Err error]]) = summarise_calls s"
  "summarise_calls (s @ [CompletionsCreate c, ConsoleError [Str a, Err error],
      ConsoleLog [Str b, Num k, Str b'], SetTimeout ms]) = summarise_calls s"
  "summarise_calls (s @ [ConsoleError [Str a, Err error]]) = summarise_calls s"
  "summarise_calls (s @ [ConsoleLog [Str a], ConsoleLog [Json r]]) = summarise_calls s"
  "summarise_calls (s @ [ConsoleLog [Str a, Num k, Str b]]) = summarise_calls s"
  by (simp_all add: summarise_calls_def)

lemma summarise_retry_calls:
  "summarise_calls (snd (summarise_retry api c attempt s)) = summarise_calls s"
proof (induction "maxRetries - attempt" arbitrary: attempt s)
  case 0
  then show ?case by (simp add: summarise_retry_exhausted)
next
  case (Suc n)
  then have lt: "attempt < maxRetries" and n: "n = maxRetries - Suc attempt" by auto
  show ?case
  proof (cases rule: summarise_retry_cases [where attempt=attempt and api=api and s=s and c=c])
    case exhausted
    with lt show ?thesis by simp
  next
    case (success result)
    then show ?thesis by (simp add: summarise_retry_success)
  next
    case (rethrow error)
    then show ?thesis by (simp add: summarise_retry_rethrow)
  next
    case (backoff error)
    with Suc.hyps(1) [OF n] show ?thesis
      by (simp add: summarise_retry_backoff)
  qed
qed

lemma summarise_keeps_calls:
  "summarise_calls (snd (summarise api parse tickets s)) = summarise_calls s"
proof -
  obtain r s1 where r: "summarise_retry api (join ''\<newline>---\<newline>'' tickets) 0 s = (r, s1)"
    by (cases "summarise_retry api (join ''\<newline>---\<newline>'' tickets) 0 s")
  with summarise_retry_calls [of api "join ''\<newline>---\<newline>'' tickets" 0 s]
  have "summarise_calls s1 = summarise_calls s" by simp
  then show ?thesis
    by (simp add: summarise_after_retry [OF r] split: sum.splits)
qed

text \<open>A run of the loop that returns called \<^verbatim>\<open>summarise\<close> once for every batch.\<close>

lemma summariseTickets_loop_calls:
  "summariseTickets_loop api parse tickets i summarisedTickets s = (Inr out, s') \<Longrightarrow>
   summarise_calls s' = summarise_calls s + ceil_div (length tickets - i) BATCH_SIZE"
proof (induction "length tickets - i" arbitrary: i summarisedTickets s rule: less_induct)
  case less
  show ?case
  proof (cases rule: summariseTickets_loop_cases
      [where i = i and tickets = tickets and api = api and parse = parse and s = s])
    case finished
    with less.prems show ?thesis
      by (simp add: summariseTickets_loop_done ceil_div_0)
  next
    case (reject error)
    with less.prems show ?thesis
      by (simp add: summariseTickets_loop_reject)
  next
    case (throw ticketBatch error s1)
    with less.prems show ?thesis
      by (simp add: summariseTickets_loop_throw)
  next
    case (continue ticketBatch summarisedTicketBatch s1)
    let ?s2 = "s1 @ [ConsoleLog [Str ''Summarised results:''], ConsoleLog [Json summarisedTicketBatch]]"
    from continue less.prems
    have rest: "summariseTickets_loop api parse tickets (i + BATCH_SIZE)
        (summarisedTickets @ summarisedTicketBatch) ?s2 = (Inr out, s')"
      by (simp add: summariseTickets_loop_next)
    have smaller: "length tickets - (i + BATCH_SIZE) < length tickets - i"
      using continue(1) by (simp add: BATCH_SIZE_def)
    from less.hyps [OF smaller rest]
    have "summarise_calls s' = summarise_calls ?s2 + ceil_div (length tickets - (i + BATCH_SIZE)) BATCH_SIZE" .
    moreover have "summarise_calls ?s2 = summarise_calls s1" by simp
    moreover from summarise_keeps_calls [of api parse ticketBatch "s @ [batch_line ticketBatch i tickets]"]
      continue(3)
    have "summarise_calls s1 = Suc (summarise_calls s)"
      by (simp add: summarise_calls_batch_line)
    ultimately show ?thesis
      using ceil_div_step [OF continue(1)] by linarith
  qed
qed

text \<open>Whether it returns or throws, the loop calls \<^verbatim>\<open>summarise\<close> at most once for every batch.\<close>

lemma summariseTickets_loop_calls_le:
  "summarise_calls (snd (summariseTickets_loop api parse tickets i summarisedTickets s)) \<le>
     summarise_calls s + ceil_div (length tickets - i) BATCH_SIZE"
proof (induction "length tickets - i" arbitrary: i summarisedTickets s rule: less_induct)
  case less
  show ?case
  proof (cases rule: summariseTickets_loop_cases
      [where i = i and tickets = tickets and api = api and parse = parse and s = s])
    case finished
    then show ?thesis
      by (simp add: summariseTickets_loop_done)
  next
    case (reject error)
    then show ?thesis
      by (simp add: summariseTickets_loop_reject)
  next
    case (throw ticketBatch error s1)
    from summarise_keeps_calls [of api parse ticketBatch "s @ [batch_line ticketBatch i tickets]"] throw(3)
    have "summarise_calls s1 = Suc (summarise_calls s)"
      by (simp add: summarise_calls_batch_line)
    moreover have same: "snd (summariseTickets_loop api parse tickets i summarisedTickets s) = s1"
      using throw by (simp add: summariseTickets_loop_throw)
    ultimately show ?thesis
      unfolding same using ceil_div_step [OF throw(1)] by linarith
  next
    case (continue ticketBatch summarisedTicketBatch s1)
    let ?s2 = "s1 @ [ConsoleLog [Str ''Summarised results:''], ConsoleLog [Json summarisedTicketBatch]]"
    have same: "summariseTickets_loop api parse tickets i summarisedTickets s =
        summariseTickets_loop api parse tickets (i + BATCH_SIZE) (summarisedTickets @ summarisedTicketBatch) ?s2"
      using continue by (simp add: summariseTickets_loop_next)
    have smaller: "length tickets - (i + BATCH_SIZE) < length tickets - i"
      using continue(1) by (simp add: BATCH_SIZE_def)
    from less.hyps [OF smaller, of "summarisedTickets @ summarisedTicketBatch" ?s2]
    have "summarise_calls (snd (summariseTickets_loop api parse tickets (i + BATCH_SIZE)
          (summarisedTickets @ summarisedTicketBatch) ?s2)) \<le>
        summarise_calls ?s2 + ceil_div (length tickets - (i + BATCH_SIZE)) BATCH_SIZE" .
    moreover have "summarise_calls ?s2 = summarise_calls s1" by simp
    moreover from summarise_keeps_calls [of api parse ticketBatch "s @ [batch_line ticketBatch i tickets]"]
      continue(3)
    have "summarise_calls s1 = Suc (summarise_calls s)"
      by (simp add: summarise_calls_batch_line)
    ultimately show ?thesis
      unfolding same using ceil_div_step [OF continue(1)] by linarith
  qed
qed

text \<open>
  The results gathered before a batch are only passed on: the loop gives them back in front
  of what it gives from the empty accumulator.
\<close>

lemma summariseTickets_loop_accumulator:
  "summariseTickets_loop api parse tickets i summarisedTickets s =
     (case summariseTickets_loop api parse tickets i [] s of
        (Inl error, s') \<Rightarrow> (Inl error, s')
      | (Inr later, s') \<Rightarrow> (Inr (summarisedTickets @ later), s'))"
proof (induction "length tickets - i" arbitrary: i summarisedTickets s rule: less_induct)
  case less
  show ?case
  proof (cases rule: summariseTickets_loop_cases [where tickets=tickets and i=i and api=api and parse=parse and s=s])
    case finished
    then show ?thesis by (simp add: summariseTickets_loop_done)
  next
    case (reject error)
    then show ?thesis by (simp add: summariseTickets_loop_reject)
  next
    case (throw ticketBatch error s1)
    then show ?thesis by (simp add: summariseTickets_loop_throw)
  next
    case (continue ticketBatch summarisedTicketBatch s1)
    let ?s2 = "s1 @ [ConsoleLog [Str ''Summarised results:''], ConsoleLog [Json summarisedTicketBatch]]"
    from continue(1) have m: "length tickets - (i + BATCH_SIZE) < length tickets - i"
      by (simp add: BATCH_SIZE_def)
    have a: "summariseTickets_loop api parse tickets i summarisedTickets s =
        summariseTickets_loop api parse tickets (i + BATCH_SIZE) (summarisedTickets @ summarisedTicketBatch) ?s2"
      by (rule summariseTickets_loop_next [OF continue])
    have b: "summariseTickets_loop api parse tickets i [] s =
        summariseTickets_loop api parse tickets (i + BATCH_SIZE) ([] @ summarisedTicketBatch) ?s2"
      by (rule summariseTickets_loop_next [OF continue])
    show ?thesis
      unfolding a b
      by (subst less.hyps [OF m, of "summarisedTickets @ summarisedTicketBatch"],
          subst less.hyps [OF m, of "[] @ summarisedTicketBatch"])
         (simp split: prod.splits sum.splits)
  qed
qed

text \<open>Of two rejections, \<^verbatim>\<open>Promise.all\<close> reports the one that comes first in time.\<close>

lemma promise_all_earliest:
  "instant2 < instant1 \<Longrightarrow>
   promise_all [(instant1, Inl error1), (instant0, Inr t), (instant2, Inl error2)] = Inl error2"
  by (simp add: promise_all_def)

section \<open>Concrete runs of the batch pipeline\<close>

lemma run_rate_limited_once:
  "summariseTickets rate_limited_once toy_parse [sample_ticket] [] =
     (Inr [JObject []],
      [ConsoleLog [Str ''Summarising '', Num 1, Str '' tickets...''],
       batch_line [sample_text] 0 [sample_ticket],
       CompletionsCreate sample_text,
       ConsoleError [Str ''Error querying OpenAI API:'',
                     Err (JsError ''RateLimitError'' ''Too many requests'' (Some ''rate_limit''))],
       ConsoleLog [Str ''Retrying in '', Num 1, Str '' seconds...''],
       SetTimeout 1000,
       CompletionsCreate sample_text,
       ConsoleLog [Str ''Summarised results:''], ConsoleLog [Json [JObject []]]])"
  by (simp add: summariseTickets_def summariseTickets_loop.simps [of _ _ "[sample_ticket]"] BATCH_SIZE_def
      ticket_callback_sample promise_all_single summarise_def summarise_retry.simps [of rate_limited_once]
      maxRetries_def
      rate_limited_once_def completions_def retryable_def isRateLimitError_def answers_def toy_parse_def
      batch_line_def)

lemma run_always_invalid_key:
  "summariseTickets always_invalid_key toy_parse (replicate 16 sample_ticket) [] =
     (Inl (JsError ''AuthenticationError'' ''Incorrect API key'' (Some ''invalid_api_key'')),
      [ConsoleLog [Str ''Summarising '', Num 16, Str '' tickets...''],
       batch_line (replicate 15 sample_text) 0 (replicate 16 sample_ticket),
       CompletionsCreate (join ''\<newline>---\<newline>'' (replicate 15 sample_text)),
       ConsoleError [Str ''Error querying OpenAI API:'',
                     Err (JsError ''AuthenticationError'' ''Incorrect API key'' (Some ''invalid_api_key''))]])"
proof -
  let ?e = "JsError ''AuthenticationError'' ''Incorrect API key'' (Some ''invalid_api_key'')"
  let ?s = "[ConsoleLog [Str ''Summarising '', Num 16, Str '' tickets...'']]"
  have batch: "promise_all (map ticket_callback (take BATCH_SIZE (drop 0 (replicate 16 sample_ticket)))) =
      Inr (replicate 15 sample_text)"
    by (simp add: BATCH_SIZE_def ticket_callback_sample promise_all_replicate)
  have "summarise always_invalid_key toy_parse (replicate 15 sample_text)
        (?s @ [batch_line (replicate 15 sample_text) 0 (replicate 16 sample_ticket)]) =
      (Inl ?e, (?s @ [batch_line (replicate 15 sample_text) 0 (replicate 16 sample_ticket)]) @
         [CompletionsCreate (join ''\<newline>---\<newline>'' (replicate 15 sample_text)),
          ConsoleError [Str ''Error querying OpenAI API:'', Err ?e]])"
    by (rule summarise_first_rethrow) (simp_all add: always_invalid_key_def retryable_def)
  from summariseTickets_loop_throw [OF _ batch this, of "[]"] show ?thesis
    by (simp add: summariseTickets_def)
qed

lemma run_two_batches:
  "summariseTickets (\<lambda>n c. Inr (answers ''[{}]'')) toy_parse (replicate 16 sample_ticket) [] =
     (Inr [JObject [], JObject []],
      [ConsoleLog [Str ''Summarising '', Num 16, Str '' tickets...''],
       batch_line (replicate 15 sample_text) 0 (replicate 16 sample_ticket),
       CompletionsCreate (join ''\<newline>---\<newline>'' (replicate 15 sample_text)),
       ConsoleLog [Str ''Summarised results:''], ConsoleLog [Json [JObject []]],
       batch_line [sample_text] 15 (replicate 16 sample_ticket),
       CompletionsCreate sample_text,
       ConsoleLog [Str ''Summarised results:''], ConsoleLog [Json [JObject []]]])"
proof -
  let ?api = "\<lambda>(n::nat) (c::string). (Inr (answers ''[{}]'') :: js_error + chat_completion)"
  let ?tickets = "replicate 16 sample_ticket"
  let ?s0 = "[ConsoleLog [Str ''Summarising '', Num 16, Str '' tickets...'']]"
  let ?b0 = "replicate 15 sample_text"
  let ?s1 = "(?s0 @ [batch_line ?b0 0 ?tickets]) @ [CompletionsCreate (join ''\<newline>---\<newline>'' ?b0)]"
  let ?s2 = "?s1 @ [ConsoleLog [Str ''Summarised results:''], ConsoleLog [Json [JObject []]]]"
  let ?s3 = "(?s2 @ [batch_line [sample_text] (0 + BATCH_SIZE) ?tickets]) @ [CompletionsCreate sample_text]"
  let ?s4 = "?s3 @ [ConsoleLog [Str ''Summarised results:''], ConsoleLog [Json [JObject []]]]"
  have batch0: "promise_all (map ticket_callback (take BATCH_SIZE (drop 0 ?tickets))) = Inr ?b0"
    by (simp add: BATCH_SIZE_def ticket_callback_sample promise_all_replicate)
  have batch1: "promise_all (map ticket_callback (take BATCH_SIZE (drop (0 + BATCH_SIZE) ?tickets))) = Inr [sample_text]"
    by (simp add: BATCH_SIZE_def ticket_callback_sample promise_all_single)
  have first: "summarise ?api toy_parse ?b0 (?s0 @ [batch_line ?b0 0 ?tickets]) = (Inr [JObject []], ?s1)"
    by (subst summarise_first_success [where result = "answers ''[{}]''"])
       (simp_all add: answers_def toy_parse_def)
  have second: "summarise ?api toy_parse [sample_text] (?s2 @ [batch_line [sample_text] (0 + BATCH_SIZE) ?tickets]) =
      (Inr [JObject []], ?s3)"
    by (subst summarise_first_success [where result = "answers ''[{}]''"])
       (simp_all add: answers_def toy_parse_def)
  have "summariseTickets_loop ?api toy_parse ?tickets 0 [] ?s0 =
      summariseTickets_loop ?api toy_parse ?tickets (0 + BATCH_SIZE) ([] @ [JObject []]) ?s2"
    by (rule summariseTickets_loop_next [OF _ batch0 first]) simp
  also have "\<dots> = summariseTickets_loop ?api toy_parse ?tickets (0 + BATCH_SIZE + BATCH_SIZE)
      (([] @ [JObject []]) @ [JObject []]) ?s4"
    by (rule summariseTickets_loop_next [OF _ batch1 second]) (simp add: BATCH_SIZE_def)
  also have "\<dots> = (Inr (([] @ [JObject []]) @ [JObject []]), ?s4)"
    by (rule summariseTickets_loop_done) (simp add: BATCH_SIZE_def)
  finally show ?thesis
    by (simp add: summariseTickets_def BATCH_SIZE_def)
qed

section \<open>Properties of the fetches\<close>

lemma getAllTicketsForProject_fetched:
  "fst (getAllTicketsForProject issues project columnName s) =
     fetched (issues (IssueFilter (Some (project_id project)) columnName))"
  by (cases "issues (IssueFilter (Some (project_id project)) columnName)")
     (simp_all add: getAllTicketsForProject_def Let_def)

lemma getAllUnprojectedTickets_fetched:
  "fst (getAllUnprojectedTickets issues columnName s) = fetched (issues (IssueFilter None columnName))"
  by (cases "issues (IssueFilter None columnName)")
     (simp_all add: getAllUnprojectedTickets_def Let_def)

lemma project_tickets_fetched:
  "fst (project_tickets issues project s) =
     concat (map (\<lambda>columnName. fetched (issues (IssueFilter (Some (project_id project)) columnName))) columns)"
proof -
  obtain t1 s1 where 1: "getAllTicketsForProject issues project LINEAR_DONE_COLUMN s = (t1, s1)"
    by (cases "getAllTicketsForProject issues project LINEAR_DONE_COLUMN s")
  obtain t2 s2 where 2: "getAllTicketsForProject issues project LINEAR_STAGING_COLUMN s1 = (t2, s2)"
    by (cases "getAllTicketsForProject issues project LINEAR_STAGING_COLUMN s1")
  obtain t3 s3 where 3: "getAllTicketsForProject issues project LINEAR_IN_REVIEW_COLUMN s2 = (t3, s3)"
    by (cases "getAllTicketsForProject issues project LINEAR_IN_REVIEW_COLUMN s2")
  obtain t4 s4 where 4: "getAllTicketsForProject issues project LINEAR_IN_PROGRESS_COLUMN s3 = (t4, s4)"
    by (cases "getAllTicketsForProject issues project LINEAR_IN_PROGRESS_COLUMN s3")
  obtain t5 s5 where 5: "getAllTicketsForProject issues project LINEAR_TODO_COLUMN s4 = (t5, s5)"
    by (cases "getAllTicketsForProject issues project LINEAR_TODO_COLUMN s4")
  have "fst (project_tickets issues project s) = t1 @ t2 @ t3 @ t4 @ t5"
    by (simp add: project_tickets_def 1 2 3 4 5)
  moreover have "t1 = fetched (issues (IssueFilter (Some (project_id project)) LINEAR_DONE_COLUMN))"
    using getAllTicketsForProject_fetched [of issues project LINEAR_DONE_COLUMN s] 1 by simp
  moreover have "t2 = fetched (issues (IssueFilter (Some (project_id project)) LINEAR_STAGING_COLUMN))"
    using getAllTicketsForProject_fetched [of issues project LINEAR_STAGING_COLUMN s1] 2 by simp
  moreover have "t3 = fetched (issues (IssueFilter (Some (project_id project)) LINEAR_IN_REVIEW_COLUMN))"
    using getAllTicketsForProject_fetched [of issues project LINEAR_IN_REVIEW_COLUMN s2] 3 by simp
  moreover have "t4 = fetched (issues (IssueFilter (Some (project_id project)) LINEAR_IN_PROGRESS_COLUMN))"
    using getAllTicketsForProject_fetched [of issues project LINEAR_IN_PROGRESS_COLUMN s3] 4 by simp
  moreover have "t5 = fetched (issues (IssueFilter (Some (project_id project)) LINEAR_TODO_COLUMN))"
    using getAllTicketsForProject_fetched [of issues project LINEAR_TODO_COLUMN s4] 5 by simp
  ultimately show ?thesis
    by (simp add: columns_def)
qed

lemma projects_loop_fetched:
  "fst (projects_loop issues projects allTickets s) =
     allTickets @
     concat (map (\<lambda>project. concat (map (\<lambda>columnName.
        fetched (issues (IssueFilter (Some (project_id project)) columnName))) columns)) projects)"
proof (induction projects arbitrary: allTickets s)
  case Nil
  show ?case by simp
next
  case (Cons project rest)
  obtain tickets s1 where step: "project_tickets issues project s = (tickets, s1)"
    by (cases "project_tickets issues project s")
  with project_tickets_fetched [of issues project s]
  have "tickets = concat (map (\<lambda>columnName.
      fetched (issues (IssueFilter (Some (project_id project)) columnName))) columns)"
    by simp
  with Cons.IH [of "allTickets @ tickets" s1] step show ?case
    by simp
qed

text \<open>
  The tickets that \<^verbatim>\<open>generateReleaseNote\<close> hands to \<^verbatim>\<open>summariseTickets\<close>: what
  every fetch contributes, project by project and column by column, then the tickets
  without a project, column by column.
\<close>

lemma fetch_all_tickets_fetched:
  "fst (fetch_all_tickets linear_projects issues s) =
     concat (map (\<lambda>project. concat (map (\<lambda>columnName.
        fetched (issues (IssueFilter (Some (project_id project)) columnName))) columns))
        (case linear_projects of Inr nodes \<Rightarrow> nodes | Inl error \<Rightarrow> [])) @
     concat (map (\<lambda>columnName. fetched (issues (IssueFilter None columnName))) columns)"
proof -
  obtain projects s0 where 0: "getAllProjects linear_projects s = (projects, s0)"
    by (cases "getAllProjects linear_projects s")
  then have projects: "projects = (case linear_projects of Inr nodes \<Rightarrow> nodes | Inl error \<Rightarrow> [])"
    by (auto simp: getAllProjects_def split: sum.splits)
  obtain allTickets s1 where l: "projects_loop issues projects [] s0 = (allTickets, s1)"
    by (cases "projects_loop issues projects [] s0")
  obtain t1 s2 where 1: "getAllUnprojectedTickets issues LINEAR_DONE_COLUMN s1 = (t1, s2)"
    by (cases "getAllUnprojectedTickets issues LINEAR_DONE_COLUMN s1")
  obtain t2 s3 where 2: "getAllUnprojectedTickets issues LINEAR_STAGING_COLUMN s2 = (t2, s3)"
    by (cases "getAllUnprojectedTickets issues LINEAR_STAGING_COLUMN s2")
  obtain t3 s4 where 3: "getAllUnprojectedTickets issues LINEAR_IN_REVIEW_COLUMN s3 = (t3, s4)"
    by (cases "getAllUnprojectedTickets issues LINEAR_IN_REVIEW_COLUMN s3")
  obtain t4 s5 where 4: "getAllUnprojectedTickets issues LINEAR_IN_PROGRESS_COLUMN s4 = (t4, s5)"
    by (cases "getAllUnprojectedTickets issues LINEAR_IN_PROGRESS_COLUMN s4")
  obtain t5 s6 where 5: "getAllUnprojectedTickets issues LINEAR_TODO_COLUMN s5 = (t5, s6)"
    by (cases "getAllUnprojectedTickets issues LINEAR_TODO_COLUMN s5")
  have "fst (fetch_all_tickets linear_projects issues s) = allTickets @ t1 @ t2 @ t3 @ t4 @ t5"
    by (simp add: fetch_all_tickets_def 0 l 1 2 3 4 5)
  moreover have "allTickets = concat (map (\<lambda>project. concat (map (\<lambda>columnName.
        fetched (issues (IssueFilter (Some (project_id project)) columnName))) columns)) projects)"
    using projects_loop_fetched [of issues projects "[]" s0] l by simp
  moreover have "t1 = fetched (issues (IssueFilter None LINEAR_DONE_COLUMN))"
    using getAllUnprojectedTickets_fetched [of issues LINEAR_DONE_COLUMN s1] 1 by simp
  moreover have "t2 = fetched (issues (IssueFilter None LINEAR_STAGING_COLUMN))"
    using getAllUnprojectedTickets_fetched [of issues LINEAR_STAGING_COLUMN s2] 2 by simp
  moreover have "t3 = fetched (issues (IssueFilter None LINEAR_IN_REVIEW_COLUMN))"
    using getAllUnprojectedTickets_fetched [of issues LINEAR_IN_REVIEW_COLUMN s3] 3 by simp
  moreover have "t4 = fetched (issues (IssueFilter None LINEAR_IN_PROGRESS_COLUMN))"
    using getAllUnprojectedTickets_fetched [of issues LINEAR_IN_PROGRESS_COLUMN s4] 4 by simp
  moreover have "t5 = fetched (issues (IssueFilter None LINEAR_TODO_COLUMN))"
    using getAllUnprojectedTickets_fetched [of issues LINEAR_TODO_COLUMN s5] 5 by simp
  ultimately show ?thesis
    by (simp add: columns_def projects)
qed

section \<open>Properties of the grouping\<close>

lemma first_seen_snoc:
  "first_seen (xs @ [y]) = (if y \<in> set xs then first_seen xs else first_seen xs @ [y])"
  by (induction xs) auto

lemma set_first_seen [simp]: "set (first_seen xs) = set xs"
  by (induction xs) auto

lemma distinct_first_seen [simp]: "distinct (first_seen xs)"
  by (induction xs) auto

lemma tickets_of_snoc:
  "tickets_of (tickets @ [ticket]) key =
     tickets_of tickets key @ (if project_key ticket = Inr key then [ticket] else [])"
  by (simp add: tickets_of_def)

lemma tickets_of_append:
  "tickets_of (xs @ ys) key = tickets_of xs key @ tickets_of ys key"
  by (simp add: tickets_of_def)

lemma fst_grouping [simp]: "map fst (grouping tickets) = first_seen (map key_text tickets)"
  by (simp add: grouping_def comp_def)

lemma keys_grouping: "fst ` set (grouping tickets) = key_text ` set tickets"
  by (simp add: grouping_def image_image)

lemma map_of_grouping:
  "map_of (grouping tickets) key =
     (if key \<in> key_text ` set tickets then Some (tickets_of tickets key) else None)"
  by (simp add: grouping_def map_of_map_restrict restrict_map_def)

lemma reduce_tickets_append:
  "reduce_tickets (xs @ ys) grouped =
     (case reduce_tickets xs grouped of Inl error \<Rightarrow> Inl error | Inr grouped1 \<Rightarrow> reduce_tickets ys grouped1)"
  by (induction xs arbitrary: grouped) (simp_all split: sum.splits)

text \<open>What the callback of the reducer does, in terms of the key of the ticket.\<close>

lemma group_ticket_key:
  "group_ticket grouped ticket =
     (case project_key ticket of
        Inl error \<Rightarrow> Inl error
      | Inr key \<Rightarrow>
          if key \<in> fst ` set grouped then Inr (push grouped key ticket)
          else if key \<in> set object_prototype_names then Inl not_a_function
          else Inr (grouped @ [(key, [ticket])]))"
proof -
  have fresh: "push (grouped @ [(key, [])]) key ticket = grouped @ [(key, [ticket])]"
    if "key \<notin> fst ` set grouped" for key
  proof -
    have "map (\<lambda>(name, arr). if name = key then (name, arr @ [ticket]) else (name, arr)) grouped = grouped"
      using that by (intro map_idI) (auto simp: image_iff)
    then show ?thesis by (simp add: push_def)
  qed
  show ?thesis
    by (auto simp: group_ticket_def project_key_def field_text_def Let_def fresh split: sum.splits)
qed

text \<open>
  One step of the reducer on the grouping of the tickets before: the ticket is filed when
  its key converts to text and is an own key or no inherited name.
\<close>

lemma group_ticket_grouping:
  assumes keys: "\<forall>t\<in>set tickets. project_key t = Inr (key_text t)"
    and key: "project_key ticket = Inr key"
    and own: "key \<in> key_text ` set tickets \<or> key \<notin> set object_prototype_names"
  shows "group_ticket (grouping tickets) ticket = Inr (grouping (tickets @ [ticket]))"
proof (cases "key \<in> key_text ` set tickets")
  case True
  have "push (grouping tickets) key ticket = grouping (tickets @ [ticket])"
    using True key
    by (auto simp: push_def grouping_def first_seen_snoc key_text_def tickets_of_snoc)
  with True key show ?thesis
    by (simp add: group_ticket_key keys_grouping)
next
  case False
  have empty: "tickets_of tickets key = []"
    using False keys by (auto simp: tickets_of_def filter_empty_conv image_iff)
  have others: "tickets_of (tickets @ [ticket]) k = tickets_of tickets k"
    if "k \<in> key_text ` set tickets" for k
    using that False key by (auto simp: tickets_of_snoc)
  have "grouping (tickets @ [ticket]) = grouping tickets @ [(key, [ticket])]"
    using False key empty others
    by (auto simp: grouping_def first_seen_snoc key_text_def tickets_of_snoc)
  with False key own show ?thesis
    by (simp add: group_ticket_key keys_grouping)
qed

lemma group_ticket_returns:
  "group_ticket grouped ticket = Inr grouped1 \<Longrightarrow>
   \<exists>key. project_key ticket = Inr key \<and> (key \<in> fst ` set grouped \<or> key \<notin> set object_prototype_names)"
  by (auto simp: group_ticket_key split: sum.splits if_splits)

text \<open>When the reducer returns, it returns the grouping, and every ticket had a key.\<close>

lemma reduce_tickets_grouping:
  "reduce_tickets tickets [] = Inr grouped \<Longrightarrow>
   grouped = grouping tickets \<and> (\<forall>t\<in>set tickets. project_key t = Inr (key_text t))"
proof (induction tickets arbitrary: grouped rule: rev_induct)
  case Nil
  then show ?case by (simp add: grouping_def)
next
  case (snoc ticket tickets)
  from snoc.prems obtain grouped0 where before: "reduce_tickets tickets [] = Inr grouped0"
    and step: "group_ticket grouped0 ticket = Inr grouped"
    by (auto simp: reduce_tickets_append split: sum.splits)
  from snoc.IH [OF before] have g0: "grouped0 = grouping tickets"
    and keys: "\<forall>t\<in>set tickets. project_key t = Inr (key_text t)" by simp_all
  from group_ticket_returns [OF step] obtain key where key: "project_key ticket = Inr key"
    and own: "key \<in> fst ` set grouped0 \<or> key \<notin> set object_prototype_names" by blast
  from own have "key \<in> key_text ` set tickets \<or> key \<notin> set object_prototype_names"
    by (simp add: g0 keys_grouping)
  from group_ticket_grouping [OF keys key this] step g0
  have "grouped = grouping (tickets @ [ticket])" by simp
  moreover from key have "project_key ticket = Inr (key_text ticket)"
    by (simp add: key_text_def)
  ultimately show ?case using keys by simp
qed

text \<open>The reducer returns when every ticket has a key that is no inherited name.\<close>

lemma reduce_tickets_returns:
  "\<forall>t\<in>set tickets. \<exists>key. project_key t = Inr key \<and> key \<notin> set object_prototype_names \<Longrightarrow>
   reduce_tickets tickets [] = Inr (grouping tickets)"
proof (induction tickets rule: rev_induct)
  case Nil
  show ?case by (simp add: grouping_def)
next
  case (snoc ticket tickets)
  then have before: "reduce_tickets tickets [] = Inr (grouping tickets)" by simp
  from snoc.prems have keys: "\<forall>t\<in>set tickets. project_key t = Inr (key_text t)"
    by (auto simp: key_text_def)
  from snoc.prems obtain key where key: "project_key ticket = Inr key"
    and own: "key \<notin> set object_prototype_names" by auto
  from group_ticket_grouping [OF keys key] own
  have "group_ticket (grouping tickets) ticket = Inr (grouping (tickets @ [ticket]))" by simp
  with before show ?case by (simp add: reduce_tickets_append)
qed


section \<open>Properties of the rendering\<close>

lemma append_lines_text:
  "append_lines arr resultString = Inr out \<Longrightarrow> out = resultString @ concat (map line_text arr)"
proof (induction arr arbitrary: resultString)
  case Nil
  then show ?case by simp
next
  case (Cons ticket rest)
  from Cons.prems obtain line where line: "ticket_line ticket = Inr line"
    and rest: "append_lines rest (resultString @ line) = Inr out"
    by (cases "ticket_line ticket") auto
  from Cons.IH [OF rest] line show ?case
    by (simp add: line_text_def)
qed

lemma append_lines_returns:
  "\<forall>t\<in>set arr. \<exists>line. ticket_line t = Inr line \<Longrightarrow>
   append_lines arr resultString = Inr (resultString @ concat (map line_text arr))"
  by (induction arr arbitrary: resultString) (auto simp: line_text_def)

text \<open>A group as \<^verbatim>\<open>render_groups\<close> shows it, read from the object of the reducer.\<close>

lemma render_groups_text:
  "render_groups grouped keys resultString s = (Inr out, s') \<Longrightarrow>
   out = resultString @
     concat (map (\<lambda>key. ''*'' @ key @ ''*:\<newline>'' @
        concat (map line_text (case map_of grouped key of Some a \<Rightarrow> a | None \<Rightarrow> [])) @ ''\<newline>'') keys)"
proof (induction keys arbitrary: resultString s)
  case Nil
  then show ?case by simp
next
  case (Cons projectName rest)
  let ?arr = "case map_of grouped projectName of Some a \<Rightarrow> a | None \<Rightarrow> []"
  from Cons.prems obtain resultString1 where
    lines: "append_lines ?arr (resultString @ ''*'' @ projectName @ ''*:\<newline>'') = Inr resultString1"
    and rest: "render_groups grouped rest (resultString1 @ ''\<newline>'')
        (s @ [ConsoleLog [Str ''Found '', Num (length ?arr), Str '' tickets for project '', Str projectName]]) =
      (Inr out, s')"
    by (auto simp: Let_def split: sum.splits)
  from append_lines_text [OF lines]
  have "resultString1 = (resultString @ ''*'' @ projectName @ ''*:\<newline>'') @ concat (map line_text ?arr)" .
  with Cons.IH [OF rest] show ?case by simp
qed

lemma render_groups_returns:
  "\<forall>key\<in>set keys. \<forall>t\<in>set (case map_of grouped key of Some a \<Rightarrow> a | None \<Rightarrow> []).
      \<exists>line. ticket_line t = Inr line \<Longrightarrow>
   fst (render_groups grouped keys resultString s) =
     Inr (resultString @
       concat (map (\<lambda>key. ''*'' @ key @ ''*:\<newline>'' @
          concat (map line_text (case map_of grouped key of Some a \<Rightarrow> a | None \<Rightarrow> [])) @ ''\<newline>'') keys))"
proof (induction keys arbitrary: resultString s)
  case Nil
  show ?case by simp
next
  case (Cons projectName rest)
  let ?arr = "case map_of grouped projectName of Some a \<Rightarrow> a | None \<Rightarrow> []"
  from Cons.prems have "\<forall>t\<in>set ?arr. \<exists>line. ticket_line t = Inr line" by simp
  from append_lines_returns [OF this]
  have lines: "append_lines ?arr (resultString @ ''*'' @ projectName @ ''*:\<newline>'') =
      Inr ((resultString @ ''*'' @ projectName @ ''*:\<newline>'') @ concat (map line_text ?arr))" .
  from Cons.prems have "\<forall>key\<in>set rest. \<forall>t\<in>set (case map_of grouped key of Some a \<Rightarrow> a | None \<Rightarrow> []).
      \<exists>line. ticket_line t = Inr line" by simp
  from Cons.IH [OF this] lines show ?case
    by (simp add: Let_def)
qed

lemma set_object_keys: "set (object_keys grouped) = fst ` set grouped"
  by (auto simp: object_keys_def)


lemma object_keys_no_index:
  "\<forall>key\<in>fst ` set grouped. \<not> is_array_index key \<Longrightarrow> object_keys grouped = map fst grouped"
proof -
  assume no: "\<forall>key\<in>fst ` set grouped. \<not> is_array_index key"
  then have "filter is_array_index (map fst grouped) = []"
    by (auto simp: filter_empty_conv)
  moreover from no have "filter (\<lambda>key. \<not> is_array_index key) (map fst grouped) = map fst grouped"
    by (auto simp: filter_id_conv)
  ultimately show ?thesis
    by (simp add: object_keys_def)
qed

text \<open>On the keys of the grouping, the rendering of a group is \<open>group_text\<close>.\<close>

lemma grouping_text:
  "set keys \<subseteq> key_text ` set tickets \<Longrightarrow>
   resultString @ concat (map (\<lambda>key. ''*'' @ key @ ''*:\<newline>'' @
       concat (map line_text (case map_of (grouping tickets) key of Some a \<Rightarrow> a | None \<Rightarrow> [])) @ ''\<newline>'') keys) =
   resultString @ concat (map (group_text tickets) keys)"
proof -
  assume "set keys \<subseteq> key_text ` set tickets"
  then have "map (\<lambda>key. ''*'' @ key @ ''*:\<newline>'' @
       concat (map line_text (case map_of (grouping tickets) key of Some a \<Rightarrow> a | None \<Rightarrow> [])) @ ''\<newline>'') keys =
     map (group_text tickets) keys"
    by (intro map_cong) (auto simp: map_of_grouping group_text_def)
  then show ?thesis by (simp only:)
qed

lemma enhancement_group:
  assumes keys: "\<forall>t\<in>set tickets. project_key t = Inr (key_text t)"
  shows "''Enhancement'' \<in> key_text ` set tickets \<longleftrightarrow> tickets_of tickets ''Enhancement'' \<noteq> []"
proof
  assume "''Enhancement'' \<in> key_text ` set tickets"
  then obtain t where t: "t \<in> set tickets" "key_text t = ''Enhancement''" by auto
  with keys have "project_key t = Inr ''Enhancement''" by auto
  with t show "tickets_of tickets ''Enhancement'' \<noteq> []"
    by (auto simp: tickets_of_def filter_empty_conv)
next
  assume "tickets_of tickets ''Enhancement'' \<noteq> []"
  then obtain t where t: "t \<in> set tickets" "project_key t = Inr ''Enhancement''"
    by (auto simp: tickets_of_def filter_empty_conv)
  then have "key_text t = ''Enhancement''" by (simp add: key_text_def)
  with t show "''Enhancement'' \<in> key_text ` set tickets" by force
qed

text \<open>The text of the release note, whenever \<^verbatim>\<open>formatReleaseNote\<close> returns one.\<close>

lemma formatReleaseNote_text:
  assumes "formatReleaseNote tickets s = (Inr out, s')"
  shows "out = concat (map (group_text tickets) (object_keys (grouping tickets))) @ enhancements_text tickets"
    and "\<forall>t\<in>set tickets. project_key t = Inr (key_text t)"
proof -
  from assms obtain grouped where reduce: "reduce_tickets tickets [] = Inr grouped"
    by (auto simp: formatReleaseNote_def split: sum.splits)
  from reduce_tickets_grouping [OF reduce] have grouped: "grouped = grouping tickets"
    and keys: "\<forall>t\<in>set tickets. project_key t = Inr (key_text t)" by simp_all
  show "\<forall>t\<in>set tickets. project_key t = Inr (key_text t)" by (rule keys)
  from assms reduce grouped obtain resultString s1 where
    render: "render_groups (grouping tickets) (object_keys (grouping tickets)) '''' s = (Inr resultString, s1)"
    and rest: "(case map_of (grouping tickets) ''Enhancement'' of
                  Some arr \<Rightarrow>
                    (case append_lines arr (resultString @ ''*Enhancements*:\<newline>'') of
                       Inl error \<Rightarrow> (Inl error, s1)
                     | Inr resultString1 \<Rightarrow> (Inr (resultString1 @ ''\<newline>''), s1))
                | None \<Rightarrow> (Inr resultString, s1)) = (Inr out, s')"
    by (auto simp: formatReleaseNote_def split: sum.splits prod.splits)
  have sub: "set (object_keys (grouping tickets)) \<subseteq> key_text ` set tickets"
    by (simp add: set_object_keys keys_grouping)
  from render_groups_text [OF render, unfolded grouping_text [OF sub]]
  have generic: "resultString = concat (map (group_text tickets) (object_keys (grouping tickets)))"
    by simp
  show "out = concat (map (group_text tickets) (object_keys (grouping tickets))) @ enhancements_text tickets"
  proof (cases "''Enhancement'' \<in> key_text ` set tickets")
    case True
    with rest obtain resultString1 where
      lines: "append_lines (tickets_of tickets ''Enhancement'') (resultString @ ''*Enhancements*:\<newline>'') =
        Inr resultString1"
      and out: "out = resultString1 @ ''\<newline>''"
      by (auto simp: map_of_grouping split: sum.splits)
    from True enhancement_group [OF keys] have "tickets_of tickets ''Enhancement'' \<noteq> []" by simp
    with append_lines_text [OF lines] out generic show ?thesis
      by (simp add: enhancements_text_def)
  next
    case False
    with rest have "out = resultString" by (simp add: map_of_grouping)
    moreover from False enhancement_group [OF keys] have "tickets_of tickets ''Enhancement'' = []" by simp
    ultimately show ?thesis using generic
      by (simp add: enhancements_text_def)
  qed
qed

text \<open>
  \<^verbatim>\<open>formatReleaseNote\<close> returns when every ticket has a key that is no inherited name
  and a line.
\<close>

lemma formatReleaseNote_returns:
  assumes keys: "\<forall>t\<in>set tickets. \<exists>key. project_key t = Inr key \<and> key \<notin> set object_prototype_names"
    and lines: "\<forall>t\<in>set tickets. \<exists>line. ticket_line t = Inr line"
  shows "fst (formatReleaseNote tickets s) =
    Inr (concat (map (group_text tickets) (object_keys (grouping tickets))) @ enhancements_text tickets)"
proof -
  have reduce: "reduce_tickets tickets [] = Inr (grouping tickets)"
    using keys by (rule reduce_tickets_returns)
  have all: "\<forall>t\<in>set tickets. project_key t = Inr (key_text t)"
    using keys by (auto simp: key_text_def)
  have sub: "set (object_keys (grouping tickets)) \<subseteq> key_text ` set tickets"
    by (simp add: set_object_keys keys_grouping)
  have "\<forall>key\<in>set (object_keys (grouping tickets)).
      \<forall>t\<in>set (case map_of (grouping tickets) key of Some a \<Rightarrow> a | None \<Rightarrow> []). \<exists>line. ticket_line t = Inr line"
    using lines by (auto simp: map_of_grouping tickets_of_def)
  from render_groups_returns [OF this, of "''''" s, unfolded grouping_text [OF sub]]
  have "fst (render_groups (grouping tickets) (object_keys (grouping tickets)) '''' s) =
      Inr (concat (map (group_text tickets) (object_keys (grouping tickets))))"
    by simp
  then obtain s1 where render: "render_groups (grouping tickets) (object_keys (grouping tickets)) '''' s =
      (Inr (concat (map (group_text tickets) (object_keys (grouping tickets)))), s1)"
    by (cases "render_groups (grouping tickets) (object_keys (grouping tickets)) '''' s") simp
  have "\<forall>t\<in>set (tickets_of tickets ''Enhancement''). \<exists>line. ticket_line t = Inr line"
    using lines by (simp add: tickets_of_def)
  note enh = append_lines_returns [OF this]
  show ?thesis
  proof (cases "''Enhancement'' \<in> key_text ` set tickets")
    case True
    with enhancement_group [OF all] have "tickets_of tickets ''Enhancement'' \<noteq> []" by simp
    with True show ?thesis
      by (simp add: formatReleaseNote_def reduce render map_of_grouping enh enhancements_text_def)
  next
    case False
    with enhancement_group [OF all] have "tickets_of tickets ''Enhancement'' = []" by simp
    with False show ?thesis
      by (simp add: formatReleaseNote_def reduce render map_of_grouping enhancements_text_def)
  qed
qed

lemma project_key_summarised [simp]:
  "project_key (summarised_ticket project category summary ident url) = Inr project"
  by (simp add: project_key_def field_text_def summarised_ticket_def)

lemma key_text_summarised [simp]:
  "key_text (summarised_ticket project category summary ident url) = project"
  by (simp add: key_text_def)

lemma ticket_line_summarised [simp]:
  "ticket_line (summarised_ticket project category summary ident url) =
     Inr (''['' @ category @ ''] '' @ summary @ '' - ['' @ ident @ '']('' @ url @ '')\<newline>'')"
  by (simp add: ticket_line_def field_text_def summarised_ticket_def)

lemma line_text_summarised [simp]:
  "line_text (summarised_ticket project category summary ident url) =
     ''['' @ category @ ''] '' @ summary @ '' - ['' @ ident @ '']('' @ url @ '')\<newline>''"
  by (simp add: line_text_def)

lemma formatReleaseNote_summarised:
  assumes "\<forall>t\<in>set tickets. \<exists>p c m i u. t = summarised_ticket p c m i u \<and> p \<notin> set object_prototype_names"
  shows "fst (formatReleaseNote tickets s) =
    Inr (concat (map (group_text tickets) (object_keys (grouping tickets))) @ enhancements_text tickets)"
proof (rule formatReleaseNote_returns)
  show "\<forall>t\<in>set tickets. \<exists>key. project_key t = Inr key \<and> key \<notin> set object_prototype_names"
    using assms by fastforce
  show "\<forall>t\<in>set tickets. \<exists>line. ticket_line t = Inr line"
    using assms by fastforce
qed





section \<open>Concrete release notes\<close>

lemma run_enhancement_tickets:
  "formatReleaseNote enhancement_tickets [] =
     (Inr (''*Enhancement*:\<newline>[DB] Update DB - [E-1](u1)\<newline>[UI] Add button - [E-3](u3)\<newline>\<newline>'' @
           ''*API*:\<newline>[CI] Fix CI - [E-2](u2)\<newline>\<newline>'' @
           ''*Enhancements*:\<newline>[DB] Update DB - [E-1](u1)\<newline>[UI] Add button - [E-3](u3)\<newline>\<newline>''),
      [ConsoleLog [Str ''Found '', Num 2, Str '' tickets for project '', Str ''Enhancement''],
       ConsoleLog [Str ''Found '', Num 1, Str '' tickets for project '', Str ''API'']])"
  by (simp add: enhancement_tickets_def formatReleaseNote_def group_ticket_key push_def
      object_prototype_names_def object_keys_def is_array_index_def)

lemma run_numbered_tickets:
  "formatReleaseNote numbered_tickets [] =
     (Inr (''*2*:\<newline>[CI] Fix CI - [E-2](u2)\<newline>\<newline>'' @ ''*API*:\<newline>[DB] Update DB - [E-1](u1)\<newline>\<newline>''),
      [ConsoleLog [Str ''Found '', Num 1, Str '' tickets for project '', Str ''2''],
       ConsoleLog [Str ''Found '', Num 1, Str '' tickets for project '', Str ''API'']])"
  by (simp add: numbered_tickets_def formatReleaseNote_def group_ticket_key push_def
      object_prototype_names_def object_keys_def is_array_index_def decimal_value_def)


section \<open>The outcome of a run and the console\<close>

text \<open>
  The console does not reach the completion API: on two traces with the same number of
  calls, the retry loop gives the same result and makes the same number of calls.
\<close>

lemma summarise_retry_same:
  "completions s = completions t \<Longrightarrow>
   fst (summarise_retry api c attempt s) = fst (summarise_retry api c attempt t) \<and>
   completions (snd (summarise_retry api c attempt s)) = completions (snd (summarise_retry api c attempt t))"
proof (induction "maxRetries - attempt" arbitrary: attempt s t)
  case 0
  then show ?case by (simp add: summarise_retry_exhausted)
next
  case (Suc n)
  then have lt: "attempt < maxRetries" and n: "n = maxRetries - Suc attempt" by auto
  note same = \<open>completions s = completions t\<close>
  show ?case
  proof (cases rule: summarise_retry_cases [where attempt=attempt and api=api and s=s and c=c])
    case exhausted
    with lt show ?thesis by simp
  next
    case (success result)
    with same have "api (completions t) c = Inr result" by simp
    with success same show ?thesis
      by (simp add: summarise_retry_success completions_create)
  next
    case (rethrow error)
    with same have "api (completions t) c = Inl error" by simp
    with rethrow same show ?thesis
      by (simp add: summarise_retry_rethrow completions_create_error)
  next
    case (backoff error)
    with same have t: "api (completions t) c = Inl error" by simp
    let ?round = "[CompletionsCreate c, ConsoleError [Str ''Error querying OpenAI API:'', Err error],
             ConsoleLog [Str ''Retrying in '', Num (2 ^ attempt), Str '' seconds...''],
             SetTimeout (2 ^ attempt * 1000)]"
    have "completions (s @ ?round) = completions (t @ ?round)"
      using same by (simp only: completions_round)
    from Suc.hyps(1) [OF n this] backoff t show ?thesis
      by (simp add: summarise_retry_backoff)
  qed
qed

lemma summarise_same:
  assumes "completions s = completions t"
  shows "fst (summarise api parse tickets s) = fst (summarise api parse tickets t) \<and>
    completions (snd (summarise api parse tickets s)) = completions (snd (summarise api parse tickets t))"
proof -
  obtain r s1 where s: "summarise_retry api (join ''\<newline>---\<newline>'' tickets) 0 s = (r, s1)"
    by (cases "summarise_retry api (join ''\<newline>---\<newline>'' tickets) 0 s")
  obtain r' t1 where t: "summarise_retry api (join ''\<newline>---\<newline>'' tickets) 0 t = (r', t1)"
    by (cases "summarise_retry api (join ''\<newline>---\<newline>'' tickets) 0 t")
  from summarise_retry_same [OF assms, of api "join ''\<newline>---\<newline>'' tickets" 0] s t
  have "r' = r" "completions s1 = completions t1" by simp_all
  with s t show ?thesis
    by (simp add: summarise_after_retry [OF s] summarise_after_retry [OF t] split: sum.splits)
qed

lemma summariseTickets_loop_same:
  "completions s = completions t \<Longrightarrow>
   fst (summariseTickets_loop api parse tickets i summarisedTickets s) =
   fst (summariseTickets_loop api parse tickets i summarisedTickets t)"
proof (induction "length tickets - i" arbitrary: i summarisedTickets s t rule: less_induct)
  case less
  note same = \<open>completions s = completions t\<close>
  show ?case
  proof (cases rule: summariseTickets_loop_cases
      [where i = i and tickets = tickets and api = api and parse = parse and s = s])
    case finished
    then show ?thesis
      by (simp add: summariseTickets_loop_done)
  next
    case (reject error)
    then show ?thesis
      by (simp add: summariseTickets_loop_reject)
  next
    case (throw ticketBatch error s1)
    have "completions (s @ [batch_line ticketBatch i tickets]) = completions (t @ [batch_line ticketBatch i tickets])"
      using same by simp
    from summarise_same [OF this, of api parse ticketBatch] throw(3)
    obtain t1 where "summarise api parse ticketBatch (t @ [batch_line ticketBatch i tickets]) = (Inl error, t1)"
      by (cases "summarise api parse ticketBatch (t @ [batch_line ticketBatch i tickets])") simp
    with throw show ?thesis
      by (simp add: summariseTickets_loop_throw)
  next
    case (continue ticketBatch summarisedTicketBatch s1)
    have "completions (s @ [batch_line ticketBatch i tickets]) = completions (t @ [batch_line ticketBatch i tickets])"
      using same by simp
    from summarise_same [OF this, of api parse ticketBatch] continue(3)
    obtain t1 where t1: "summarise api parse ticketBatch (t @ [batch_line ticketBatch i tickets]) =
        (Inr summarisedTicketBatch, t1)" and calls: "completions s1 = completions t1"
      by (cases "summarise api parse ticketBatch (t @ [batch_line ticketBatch i tickets])") simp
    let ?rest = "[ConsoleLog [Str ''Summarised results:''], ConsoleLog [Json summarisedTicketBatch]]"
    have smaller: "length tickets - (i + BATCH_SIZE) < length tickets - i"
      using continue(1) by (simp add: BATCH_SIZE_def)
    have "completions (s1 @ ?rest) = completions (t1 @ ?rest)"
      using calls by simp
    from less.hyps [OF smaller this, of "summarisedTickets @ summarisedTicketBatch"]
    show ?thesis
      using continue t1 by (simp add: summariseTickets_loop_next)
  qed
qed

lemma render_groups_same:
  "fst (render_groups grouped keys resultString s) = fst (render_groups grouped keys resultString t)"
proof (induction keys arbitrary: resultString s t)
  case Nil
  show ?case by simp
next
  case (Cons projectName rest)
  show ?case
    by (cases "append_lines (case map_of grouped projectName of Some a \<Rightarrow> a | None \<Rightarrow> [])
          (resultString @ ''*'' @ projectName @ ''*:\<newline>'')")
       (simp_all add: Let_def Cons.IH [of _ "s @ _" "t @ _"])
qed

lemma formatReleaseNote_same:
  "fst (formatReleaseNote tickets s) = fst (formatReleaseNote tickets t)"
proof (cases "reduce_tickets tickets []")
  case (Inl error)
  then show ?thesis by (simp add: formatReleaseNote_def)
next
  case (Inr grouped)
  obtain r s1 where s: "render_groups grouped (object_keys grouped) '''' s = (r, s1)"
    by (cases "render_groups grouped (object_keys grouped) '''' s")
  obtain r' t1 where t: "render_groups grouped (object_keys grouped) '''' t = (r', t1)"
    by (cases "render_groups grouped (object_keys grouped) '''' t")
  from render_groups_same [of grouped "object_keys grouped" "''''" s t] s t have "r' = r" by simp
  with Inr s t show ?thesis
    by (simp add: formatReleaseNote_def split: sum.splits option.splits)
qed

lemma getAllProjects_completions:
  "completions (snd (getAllProjects linear_projects s)) = completions s"
  by (simp add: getAllProjects_def split: sum.splits)

lemma getAllTicketsForProject_completions:
  "completions (snd (getAllTicketsForProject issues project columnName s)) = completions s"
  by (simp add: getAllTicketsForProject_def Let_def completions_def split: sum.splits)

lemma getAllUnprojectedTickets_completions:
  "completions (snd (getAllUnprojectedTickets issues columnName s)) = completions s"
  by (simp add: getAllUnprojectedTickets_def Let_def completions_def split: sum.splits)

lemma project_tickets_completions:
  "completions (snd (project_tickets issues project s)) = completions s"
  by (simp add: project_tickets_def split_beta getAllTicketsForProject_completions)

lemma projects_loop_completions:
  "completions (snd (projects_loop issues projects allTickets s)) = completions s"
  by (induction projects arbitrary: allTickets s) (simp_all add: split_beta project_tickets_completions)

lemma fetch_all_tickets_completions:
  "completions (snd (fetch_all_tickets linear_projects issues s)) = completions s"
  by (simp add: fetch_all_tickets_def split_beta getAllUnprojectedTickets_completions
      projects_loop_completions getAllProjects_completions)

text \<open>
  The outcome of the run depends on the tracker only through the tickets it gathers.
\<close>

lemma generateReleaseNote_same:
  assumes "fst (fetch_all_tickets linear_projects issues1 s) = fst (fetch_all_tickets linear_projects issues2 s)"
  shows "fst (generateReleaseNote linear_projects issues1 api parse s) =
    fst (generateReleaseNote linear_projects issues2 api parse s)"
proof -
  obtain allTickets s1 where 1: "fetch_all_tickets linear_projects issues1 s = (allTickets, s1)"
    by (cases "fetch_all_tickets linear_projects issues1 s")
  with assms obtain t1 where 2: "fetch_all_tickets linear_projects issues2 s = (allTickets, t1)"
    by (cases "fetch_all_tickets linear_projects issues2 s") simp
  from fetch_all_tickets_completions [of linear_projects issues1 s]
    fetch_all_tickets_completions [of linear_projects issues2 s] 1 2
  have "completions (s1 @ [ConsoleLog [Str ''Summarising '', Num (length allTickets), Str '' tickets...'']]) =
      completions (t1 @ [ConsoleLog [Str ''Summarising '', Num (length allTickets), Str '' tickets...'']])"
    by simp
  from summariseTickets_loop_same [OF this, of api parse allTickets 0 "[]"]
  have same: "fst (summariseTickets api parse allTickets s1) = fst (summariseTickets api parse allTickets t1)"
    by (simp add: summariseTickets_def)
  obtain r s2 where s2: "summariseTickets api parse allTickets s1 = (r, s2)"
    by (cases "summariseTickets api parse allTickets s1")
  with same obtain t2 where t2: "summariseTickets api parse allTickets t1 = (r, t2)"
    by (cases "summariseTickets api parse allTickets t1") simp
  show ?thesis
  proof (cases r)
    case (Inl error)
    with 1 2 s2 t2 show ?thesis by (simp add: generateReleaseNote_def)
  next
    case (Inr summarisedTickets)
    obtain f s3 where s3: "formatReleaseNote summarisedTickets s2 = (f, s3)"
      by (cases "formatReleaseNote summarisedTickets s2")
    with formatReleaseNote_same [of summarisedTickets s2 t2]
    obtain t3 where t3: "formatReleaseNote summarisedTickets t2 = (f, t3)"
      by (cases "formatReleaseNote summarisedTickets t2") simp
    from Inr 1 2 s2 t2 s3 t3 show ?thesis
      by (cases f) (simp_all add: generateReleaseNote_def)
  qed
qed

section \<open>The claims\<close>

subsection \<open>The number of calls of the completion API\<close>

text \<open>
  C1, as the code has it. The claim that \<^verbatim>\<open>summariseTickets\<close> calls the completion API
  exactly \<open>ceil (n / 15)\<close> times for every list of \<open>n\<close> tickets fails in two ways. A
  call that is retried after a rate-limit error is a second call for the same batch: one
  ticket, two calls. A batch that throws ends the run before the later batches are
  summarised: sixteen tickets, one call of \<^verbatim>\<open>summarise\<close> and one call of the API.
\<close>

theorem summariseTickets_calls_counterexample:
  "fst (summariseTickets rate_limited_once toy_parse [sample_ticket] []) = Inr [JObject []] \<and>
   completions (snd (summariseTickets rate_limited_once toy_parse [sample_ticket] [])) = 2 \<and>
   ceil_div (length [sample_ticket]) BATCH_SIZE = 1 \<and>
   completions (snd (summariseTickets always_invalid_key toy_parse (replicate 16 sample_ticket) [])) = 1 \<and>
   summarise_calls (snd (summariseTickets always_invalid_key toy_parse (replicate 16 sample_ticket) [])) = 1 \<and>
   ceil_div (length (replicate 16 sample_ticket)) BATCH_SIZE = 2"
  by (simp add: run_rate_limited_once run_always_invalid_key completions_def summarise_calls_def
      is_batch_line_def batch_line_def ceil_div_def BATCH_SIZE_def)

text \<open>
  C1, amended. When \<^verbatim>\<open>summariseTickets\<close> returns for a list of \<open>n\<close> tickets, it has
  called \<^verbatim>\<open>summarise\<close> exactly \<open>ceil (n / 15)\<close> times, once for every batch, and the
  number of calls of the completion API is \<open>ceil (n / 15)\<close> plus one call for every
  backoff wait; so it is exactly \<open>ceil (n / 15)\<close> when no call was retried. Whether the
  run returns or throws, it calls \<^verbatim>\<open>summarise\<close> at most \<open>ceil (n / 15)\<close> times and the
  completion API at most \<open>5 * ceil (n / 15)\<close> times. An empty list makes no call and
  returns the empty sequence.
\<close>

theorem summariseTickets_calls:
  "(summariseTickets api parse tickets s = (Inr summarised, s') \<longrightarrow>
      summarise_calls s' = summarise_calls s + ceil_div (length tickets) BATCH_SIZE \<and>
      completions s' + length (timeouts s) =
        completions s + length (timeouts s') + ceil_div (length tickets) BATCH_SIZE) \<and>
   (summariseTickets api parse tickets s = (Inr summarised, s') \<and> timeouts s' = timeouts s \<longrightarrow>
      completions s' = completions s + ceil_div (length tickets) BATCH_SIZE) \<and>
   summarise_calls (snd (summariseTickets api parse tickets s)) \<le>
     summarise_calls s + ceil_div (length tickets) BATCH_SIZE \<and>
   completions (snd (summariseTickets api parse tickets s)) \<le>
     completions s + 5 * ceil_div (length tickets) BATCH_SIZE \<and>
   summariseTickets api parse [] s =
     (Inr [], s @ [ConsoleLog [Str ''Summarising '', Num 0, Str '' tickets...'']]) \<and>
   completions (snd (summariseTickets api parse [] s)) = completions s \<and>
   BATCH_SIZE = 15 \<and> ceil_div (length tickets) BATCH_SIZE = (length tickets + 14) div 15"
proof -
  let ?s0 = "s @ [ConsoleLog [Str ''Summarising '', Num (length tickets), Str '' tickets...'']]"
  have returns: "completions s' + length (timeouts s) =
        completions s + length (timeouts s') + ceil_div (length tickets) BATCH_SIZE"
    if "summariseTickets api parse tickets s = (Inr summarised, s')"
  proof -
    from that have "summariseTickets_loop api parse tickets 0 [] ?s0 = (Inr summarised, s')"
      by (simp add: summariseTickets_def)
    from summariseTickets_loop_accounting [OF this]
    have "completions s' + length (timeouts ?s0) =
        completions ?s0 + length (timeouts s') + ceil_div (length tickets - 0) BATCH_SIZE" .
    moreover have "timeouts ?s0 = timeouts s" "completions ?s0 = completions s" "length tickets - 0 = length tickets"
      by simp_all
    ultimately show ?thesis by (simp only:)
  qed
  have exact: "completions s' = completions s + ceil_div (length tickets) BATCH_SIZE"
    if "summariseTickets api parse tickets s = (Inr summarised, s')" "timeouts s' = timeouts s"
  proof -
    from that(2) have "length (timeouts s') = length (timeouts s)" by simp
    with returns [OF that(1)] show ?thesis by linarith
  qed
  have bound: "completions (snd (summariseTickets api parse tickets s)) \<le>
     completions s + 5 * ceil_div (length tickets) BATCH_SIZE"
  proof -
    from summariseTickets_loop_bound [of api parse tickets 0 "[]" ?s0]
    have "completions (snd (summariseTickets_loop api parse tickets 0 [] ?s0)) \<le>
        completions ?s0 + maxRetries * ceil_div (length tickets - 0) BATCH_SIZE" .
    moreover have "completions ?s0 = completions s" "length tickets - 0 = length tickets" "maxRetries = 5"
      by (simp_all add: maxRetries_def)
    ultimately show ?thesis
      unfolding summariseTickets_def by (simp only:)
  qed
  have called: "summarise_calls s' = summarise_calls s + ceil_div (length tickets) BATCH_SIZE"
    if "summariseTickets api parse tickets s = (Inr summarised, s')"
  proof -
    from that have "summariseTickets_loop api parse tickets 0 [] ?s0 = (Inr summarised, s')"
      by (simp add: summariseTickets_def)
    from summariseTickets_loop_calls [OF this]
    have "summarise_calls s' = summarise_calls ?s0 + ceil_div (length tickets - 0) BATCH_SIZE" .
    moreover have "summarise_calls ?s0 = summarise_calls s" "length tickets - 0 = length tickets"
      by simp_all
    ultimately show ?thesis by (simp only:)
  qed
  have called_le: "summarise_calls (snd (summariseTickets api parse tickets s)) \<le>
     summarise_calls s + ceil_div (length tickets) BATCH_SIZE"
  proof -
    from summariseTickets_loop_calls_le [of api parse tickets 0 "[]" ?s0]
    have "summarise_calls (snd (summariseTickets_loop api parse tickets 0 [] ?s0)) \<le>
        summarise_calls ?s0 + ceil_div (length tickets - 0) BATCH_SIZE" .
    moreover have "summarise_calls ?s0 = summarise_calls s" "length tickets - 0 = length tickets"
      by simp_all
    ultimately show ?thesis
      unfolding summariseTickets_def by (simp only:)
  qed
  have empty: "summariseTickets api parse [] s =
     (Inr [], s @ [ConsoleLog [Str ''Summarising '', Num 0, Str '' tickets...'']])"
    by (simp add: summariseTickets_def summariseTickets_loop_done)
  have size: "BATCH_SIZE = 15" "ceil_div (length tickets) BATCH_SIZE = (length tickets + 14) div 15"
    by (simp_all add: BATCH_SIZE_def ceil_div_def)
  from returns called exact bound called_le empty size show ?thesis
    by (simp only: snd_conv completions_console) blast
qed

theorem summariseTickets_calls_witness:
  "summariseTickets rate_limited_once toy_parse [sample_ticket] [] =
     (Inr [JObject []],
      [ConsoleLog [Str ''Summarising '', Num 1, Str '' tickets...''],
       batch_line [sample_text] 0 [sample_ticket],
       CompletionsCreate sample_text,
       ConsoleError [Str ''Error querying OpenAI API:'',
                     Err (JsError ''RateLimitError'' ''Too many requests'' (Some ''rate_limit''))],
       ConsoleLog [Str ''Retrying in '', Num 1, Str '' seconds...''],
       SetTimeout 1000,
       CompletionsCreate sample_text,
       ConsoleLog [Str ''Summarised results:''], ConsoleLog [Json [JObject []]]]) \<and>
   completions (snd (summariseTickets rate_limited_once toy_parse [sample_ticket] [])) =
     ceil_div 1 BATCH_SIZE + length (timeouts (snd (summariseTickets rate_limited_once toy_parse [sample_ticket] []))) \<and>
   timeouts (snd (summariseTickets (\<lambda>n c. Inr (answers ''[{}]'')) toy_parse (replicate 16 sample_ticket) [])) = [] \<and>
   completions (snd (summariseTickets (\<lambda>n c. Inr (answers ''[{}]'')) toy_parse (replicate 16 sample_ticket) [])) =
     ceil_div 16 BATCH_SIZE \<and>
   summarise_calls (snd (summariseTickets (\<lambda>n c. Inr (answers ''[{}]'')) toy_parse (replicate 16 sample_ticket) [])) =
     ceil_div 16 BATCH_SIZE"
proof -
  obtain s1 where s1: "summariseTickets rate_limited_once toy_parse [sample_ticket] [] = (Inr [JObject []], s1)"
    by (simp add: run_rate_limited_once)
  obtain s2 where s2: "summariseTickets (\<lambda>n c. Inr (answers ''[{}]'')) toy_parse (replicate 16 sample_ticket) [] =
      (Inr [JObject [], JObject []], s2)"
    and quiet: "timeouts s2 = timeouts []"
    by (simp add: run_two_batches timeouts_def batch_line_def)
  from summariseTickets_calls [of rate_limited_once toy_parse "[sample_ticket]" "[]" "[JObject []]" s1] s1
  have "completions s1 + length (timeouts []) =
      completions [] + length (timeouts s1) + ceil_div (length [sample_ticket]) BATCH_SIZE"
    by blast
  moreover
  from summariseTickets_calls [of "\<lambda>n c. Inr (answers ''[{}]'')" toy_parse "replicate 16 sample_ticket" "[]"
      "[JObject [], JObject []]" s2] s2 quiet
  have "completions s2 = completions [] + ceil_div (length (replicate 16 sample_ticket)) BATCH_SIZE"
    and "summarise_calls s2 = summarise_calls [] + ceil_div (length (replicate 16 sample_ticket)) BATCH_SIZE"
    by blast+
  ultimately show ?thesis
    using s1 s2 quiet run_rate_limited_once
    by (simp add: completions_Nil timeouts_Nil summarise_calls_def)
qed

subsection \<open>The backoff schedule\<close>



subsection \<open>Errors that are not retried\<close>



subsection \<open>A response that does not parse\<close>

text \<open>
  C4. When the completion API answers the call for a batch, at once or after failures that
  the loop retries, with a text that is not empty and that \<^verbatim>\<open>JSON.parse\<close> rejects,
  \<^verbatim>\<open>summarise\<close> writes the parse error to the console and returns the empty
  sequence instead of throwing. \<^verbatim>\<open>summariseTickets\<close> appends nothing for that batch
  and goes on with the batch that follows: its outcome is the outcome of the later batches,
  with the results gathered before in front of theirs. Every batch for which
  \<^verbatim>\<open>summarise\<close> returns contributes what \<^verbatim>\<open>summarise\<close> returned, in batch
  order, and after the last batch the gathered results are the output of
  \<^verbatim>\<open>summariseTickets\<close>, which starts the loop with none; so the output is the results
  of the other batches, and nothing else.
\<close>

theorem unparsable_response_degrades:
  "(k < maxRetries \<and>
    (\<forall>j<k. api (completions s + j) (join ''\<newline>---\<newline>'' ticketBatch) = Inl (errors j) \<and> retryable (errors j)) \<and>
    api (completions s + k) (join ''\<newline>---\<newline>'' ticketBatch) = Inr result \<and>
    returned_content result \<noteq> '''' \<and> parse (returned_content result) = Inl error \<longrightarrow>
      summarise api parse ticketBatch s =
        (Inr [],
         s @ concat (map (backoff_round (join ''\<newline>---\<newline>'' ticketBatch) errors) [0..<k]) @
           [CompletionsCreate (join ''\<newline>---\<newline>'' ticketBatch),
            ConsoleError [Str ''Error parsing OpenAI API response:'', Err error]])) \<and>
   (i < length tickets \<and>
    promise_all (map ticket_callback (take BATCH_SIZE (drop i tickets))) = Inr ticketBatch \<and>
    k < maxRetries \<and>
    (\<forall>j<k. api (completions s + j) (join ''\<newline>---\<newline>'' ticketBatch) = Inl (errors j) \<and> retryable (errors j)) \<and>
    api (completions s + k) (join ''\<newline>---\<newline>'' ticketBatch) = Inr result \<and>
    returned_content result \<noteq> '''' \<and> parse (returned_content result) = Inl error \<longrightarrow>
      summariseTickets_loop api parse tickets i summarisedTickets s =
        summariseTickets_loop api parse tickets (i + BATCH_SIZE) summarisedTickets
          (s @ [batch_line ticketBatch i tickets] @
             concat (map (backoff_round (join ''\<newline>---\<newline>'' ticketBatch) errors) [0..<k]) @
             [CompletionsCreate (join ''\<newline>---\<newline>'' ticketBatch),
              ConsoleError [Str ''Error parsing OpenAI API response:'', Err error],
              ConsoleLog [Str ''Summarised results:''], ConsoleLog [Json []]]) \<and>
      summariseTickets_loop api parse tickets i summarisedTickets s =
        (case summariseTickets_loop api parse tickets (i + BATCH_SIZE) []
                (s @ [batch_line ticketBatch i tickets] @
                   concat (map (backoff_round (join ''\<newline>---\<newline>'' ticketBatch) errors) [0..<k]) @
                   [CompletionsCreate (join ''\<newline>---\<newline>'' ticketBatch),
                    ConsoleError [Str ''Error parsing OpenAI API response:'', Err error],
                    ConsoleLog [Str ''Summarised results:''], ConsoleLog [Json []]]) of
           (Inl thrown, s') \<Rightarrow> (Inl thrown, s')
         | (Inr later, s') \<Rightarrow> (Inr (summarisedTickets @ later), s'))) \<and>
   (i < length tickets \<and>
    promise_all (map ticket_callback (take BATCH_SIZE (drop i tickets))) = Inr ticketBatch \<and>
    summarise api parse ticketBatch (s @ [batch_line ticketBatch i tickets]) = (Inr summarisedTicketBatch, s_after) \<longrightarrow>
      summariseTickets_loop api parse tickets i summarisedTickets s =
        (case summariseTickets_loop api parse tickets (i + BATCH_SIZE) []
                (s_after @ [ConsoleLog [Str ''Summarised results:''], ConsoleLog [Json summarisedTicketBatch]]) of
           (Inl thrown, s') \<Rightarrow> (Inl thrown, s')
         | (Inr later, s') \<Rightarrow> (Inr (summarisedTickets @ summarisedTicketBatch @ later), s'))) \<and>
   (\<not> i < length tickets \<longrightarrow>
      summariseTickets_loop api parse tickets i summarisedTickets s = (Inr summarisedTickets, s)) \<and>
   summariseTickets api parse tickets s =
     summariseTickets_loop api parse tickets 0 []
       (s @ [ConsoleLog [Str ''Summarising '', Num (length tickets), Str '' tickets...'']])"
proof -
  let ?c = "join ''\<newline>---\<newline>'' ticketBatch"
  let ?parse_error = "ConsoleError [Str ''Error parsing OpenAI API response:'', Err error]"
  let ?s2 = "s @ [batch_line ticketBatch i tickets] @ concat (map (backoff_round ?c errors) [0..<k]) @
      [CompletionsCreate ?c, ?parse_error, ConsoleLog [Str ''Summarised results:''], ConsoleLog [Json []]]"
  have one: "summarise api parse ticketBatch s0 =
      (Inr [], s0 @ concat (map (backoff_round ?c errors) [0..<k]) @ [CompletionsCreate ?c, ?parse_error])"
    if "k < maxRetries"
      "\<forall>j<k. api (completions s0 + j) ?c = Inl (errors j) \<and> retryable (errors j)"
      "api (completions s0 + k) ?c = Inr result"
      "returned_content result \<noteq> ''''" "parse (returned_content result) = Inl error" for s0
    using summarise_answered
        [where k=k and api=api and s=s0 and tickets=ticketBatch and errors=errors and result=result
           and parse=parse] that
    by simp
  have step: "summariseTickets_loop api parse tickets i acc s =
      summariseTickets_loop api parse tickets (i + BATCH_SIZE) acc ?s2"
    if "i < length tickets"
      "promise_all (map ticket_callback (take BATCH_SIZE (drop i tickets))) = Inr ticketBatch"
      "k < maxRetries"
      "\<forall>j<k. api (completions s + j) ?c = Inl (errors j) \<and> retryable (errors j)"
      "api (completions s + k) ?c = Inr result"
      "returned_content result \<noteq> ''''" "parse (returned_content result) = Inl error" for acc
  proof -
    have "summarise api parse ticketBatch (s @ [batch_line ticketBatch i tickets]) =
        (Inr [], (s @ [batch_line ticketBatch i tickets]) @ concat (map (backoff_round ?c errors) [0..<k]) @
           [CompletionsCreate ?c, ?parse_error])"
      using that by (intro one) simp_all
    from summariseTickets_loop_next [OF that(1,2) this, of acc] show ?thesis by simp
  qed
  have garbled: "summariseTickets_loop api parse tickets i summarisedTickets s =
        summariseTickets_loop api parse tickets (i + BATCH_SIZE) summarisedTickets ?s2 \<and>
      summariseTickets_loop api parse tickets i summarisedTickets s =
        (case summariseTickets_loop api parse tickets (i + BATCH_SIZE) [] ?s2 of
           (Inl thrown, s') \<Rightarrow> (Inl thrown, s')
         | (Inr later, s') \<Rightarrow> (Inr (summarisedTickets @ later), s'))"
    if "i < length tickets"
      "promise_all (map ticket_callback (take BATCH_SIZE (drop i tickets))) = Inr ticketBatch"
      "k < maxRetries"
      "\<forall>j<k. api (completions s + j) ?c = Inl (errors j) \<and> retryable (errors j)"
      "api (completions s + k) ?c = Inr result"
      "returned_content result \<noteq> ''''" "parse (returned_content result) = Inl error"
  proof
    show "summariseTickets_loop api parse tickets i summarisedTickets s =
        summariseTickets_loop api parse tickets (i + BATCH_SIZE) summarisedTickets ?s2"
      by (rule step [OF that])
    then show "summariseTickets_loop api parse tickets i summarisedTickets s =
        (case summariseTickets_loop api parse tickets (i + BATCH_SIZE) [] ?s2 of
           (Inl thrown, s') \<Rightarrow> (Inl thrown, s')
         | (Inr later, s') \<Rightarrow> (Inr (summarisedTickets @ later), s'))"
      by (simp only: summariseTickets_loop_accumulator [of api parse tickets "i + BATCH_SIZE" summarisedTickets])
  qed
  have other: "summariseTickets_loop api parse tickets i summarisedTickets s =
        (case summariseTickets_loop api parse tickets (i + BATCH_SIZE) []
                (s_after @ [ConsoleLog [Str ''Summarised results:''], ConsoleLog [Json summarisedTicketBatch]]) of
           (Inl thrown, s') \<Rightarrow> (Inl thrown, s')
         | (Inr later, s') \<Rightarrow> (Inr (summarisedTickets @ summarisedTicketBatch @ later), s'))"
    if "i < length tickets"
      "promise_all (map ticket_callback (take BATCH_SIZE (drop i tickets))) = Inr ticketBatch"
      "summarise api parse ticketBatch (s @ [batch_line ticketBatch i tickets]) = (Inr summarisedTicketBatch, s_after)"
  proof -
    have "summariseTickets_loop api parse tickets i summarisedTickets s =
        summariseTickets_loop api parse tickets (i + BATCH_SIZE) (summarisedTickets @ summarisedTicketBatch)
          (s_after @ [ConsoleLog [Str ''Summarised results:''], ConsoleLog [Json summarisedTicketBatch]])"
      by (rule summariseTickets_loop_next [OF that])
    then show ?thesis
      by (simp only: summariseTickets_loop_accumulator
            [of api parse tickets "i + BATCH_SIZE" "summarisedTickets @ summarisedTicketBatch"] append_assoc)
  qed
  have finished: "summariseTickets_loop api parse tickets i summarisedTickets s = (Inr summarisedTickets, s)"
    if "\<not> i < length tickets"
    by (rule summariseTickets_loop_done [OF that])
  show ?thesis
  proof (intro conjI impI)
    assume "k < maxRetries \<and>
      (\<forall>j<k. api (completions s + j) ?c = Inl (errors j) \<and> retryable (errors j)) \<and>
      api (completions s + k) ?c = Inr result \<and>
      returned_content result \<noteq> '''' \<and> parse (returned_content result) = Inl error"
    then show "summarise api parse ticketBatch s =
        (Inr [], s @ concat (map (backoff_round ?c errors) [0..<k]) @ [CompletionsCreate ?c, ?parse_error])"
      by (intro one) blast+
  next
    assume a: "i < length tickets \<and>
      promise_all (map ticket_callback (take BATCH_SIZE (drop i tickets))) = Inr ticketBatch \<and>
      k < maxRetries \<and>
      (\<forall>j<k. api (completions s + j) ?c = Inl (errors j) \<and> retryable (errors j)) \<and>
      api (completions s + k) ?c = Inr result \<and>
      returned_content result \<noteq> '''' \<and> parse (returned_content result) = Inl error"
    have g: "summariseTickets_loop api parse tickets i summarisedTickets s =
        summariseTickets_loop api parse tickets (i + BATCH_SIZE) summarisedTickets ?s2 \<and>
      summariseTickets_loop api parse tickets i summarisedTickets s =
        (case summariseTickets_loop api parse tickets (i + BATCH_SIZE) [] ?s2 of
           (Inl thrown, s') \<Rightarrow> (Inl thrown, s')
         | (Inr later, s') \<Rightarrow> (Inr (summarisedTickets @ later), s'))"
      using a by (intro garbled) blast+
    from g show "summariseTickets_loop api parse tickets i summarisedTickets s =
        summariseTickets_loop api parse tickets (i + BATCH_SIZE) summarisedTickets ?s2" ..
    from g show "summariseTickets_loop api parse tickets i summarisedTickets s =
        (case summariseTickets_loop api parse tickets (i + BATCH_SIZE) [] ?s2 of
           (Inl thrown, s') \<Rightarrow> (Inl thrown, s')
         | (Inr later, s') \<Rightarrow> (Inr (summarisedTickets @ later), s'))" ..
  next
    assume "i < length tickets \<and>
      promise_all (map ticket_callback (take BATCH_SIZE (drop i tickets))) = Inr ticketBatch \<and>
      summarise api parse ticketBatch (s @ [batch_line ticketBatch i tickets]) = (Inr summarisedTicketBatch, s_after)"
    then show "summariseTickets_loop api parse tickets i summarisedTickets s =
        (case summariseTickets_loop api parse tickets (i + BATCH_SIZE) []
                (s_after @ [ConsoleLog [Str ''Summarised results:''], ConsoleLog [Json summarisedTicketBatch]]) of
           (Inl thrown, s') \<Rightarrow> (Inl thrown, s')
         | (Inr later, s') \<Rightarrow> (Inr (summarisedTickets @ summarisedTicketBatch @ later), s'))"
      by (intro other) blast+
  next
    assume "\<not> i < length tickets"
    then show "summariseTickets_loop api parse tickets i summarisedTickets s = (Inr summarisedTickets, s)"
      by (rule finished)
  next
    show "summariseTickets api parse tickets s =
        summariseTickets_loop api parse tickets 0 []
          (s @ [ConsoleLog [Str ''Summarising '', Num (length tickets), Str '' tickets...'']])"
      by (simp add: summariseTickets_def)
  qed
qed

theorem unparsable_response_degrades_witness:
  "summariseTickets garbled_after_rate_limit toy_parse (replicate 16 sample_ticket) [] =
     (Inr [JObject []],
      [ConsoleLog [Str ''Summarising '', Num 16, Str '' tickets...''],
       batch_line (replicate 15 sample_text) 0 (replicate 16 sample_ticket),
       CompletionsCreate (join ''\<newline>---\<newline>'' (replicate 15 sample_text)),
       ConsoleError [Str ''Error querying OpenAI API:'', Err rate_limit_error],
       ConsoleLog [Str ''Retrying in '', Num 1, Str '' seconds...''],
       SetTimeout 1000,
       CompletionsCreate (join ''\<newline>---\<newline>'' (replicate 15 sample_text)),
       ConsoleError [Str ''Error parsing OpenAI API response:'',
                     Err (JsError ''SyntaxError'' ''Unexpected token'' None)],
       ConsoleLog [Str ''Summarised results:''], ConsoleLog [Json []],
       batch_line [sample_text] 15 (replicate 16 sample_ticket),
       CompletionsCreate sample_text,
       ConsoleLog [Str ''Summarised results:''], ConsoleLog [Json [JObject []]]])"
proof -
  let ?api = garbled_after_rate_limit
  let ?tickets = "replicate 16 sample_ticket"
  let ?s0 = "[ConsoleLog [Str ''Summarising '', Num 16, Str '' tickets...'']]"
  let ?b0 = "replicate 15 sample_text"
  let ?c0 = "join ''\<newline>---\<newline>'' ?b0"
  let ?errors = "\<lambda>k::nat. rate_limit_error"
  let ?e = "JsError ''SyntaxError'' ''Unexpected token'' None"
  let ?s2 = "?s0 @ [batch_line ?b0 0 ?tickets] @ concat (map (backoff_round ?c0 ?errors) [0..<1]) @
      [CompletionsCreate ?c0, ConsoleError [Str ''Error parsing OpenAI API response:'', Err ?e],
       ConsoleLog [Str ''Summarised results:''], ConsoleLog [Json []]]"
  let ?s3 = "((?s2 @ [batch_line [sample_text] (0 + BATCH_SIZE) ?tickets]) @ [CompletionsCreate sample_text]) @
      [ConsoleLog [Str ''Summarised results:''], ConsoleLog [Json [JObject []]]]"
  have started: "completions ?s0 = 0"
    by (simp add: completions_def)
  have garbled: "(0::nat) < length ?tickets \<and>
      promise_all (map ticket_callback (take BATCH_SIZE (drop 0 ?tickets))) = Inr ?b0 \<and>
      1 < maxRetries \<and>
      (\<forall>j<1. ?api (completions ?s0 + j) ?c0 = Inl (?errors j) \<and> retryable (?errors j)) \<and>
      ?api (completions ?s0 + 1) ?c0 = Inr (answers ''oops'') \<and>
      returned_content (answers ''oops'') \<noteq> '''' \<and>
      toy_parse (returned_content (answers ''oops'')) = Inl ?e"
    unfolding started
    by (simp add: BATCH_SIZE_def ticket_callback_sample promise_all_replicate maxRetries_def
        garbled_after_rate_limit_def retryable_rate_limit_error answers_def toy_parse_def)
  have first: "summariseTickets_loop ?api toy_parse ?tickets 0 [] ?s0 =
      (case summariseTickets_loop ?api toy_parse ?tickets (0 + BATCH_SIZE) [] ?s2 of
         (Inl thrown, s') \<Rightarrow> (Inl thrown, s')
       | (Inr later, s') \<Rightarrow> (Inr ([] @ later), s'))"
    by (rule unparsable_response_degrades
          [where k=1 and api="?api" and s="?s0" and ticketBatch="?b0" and errors="?errors"
             and result="answers ''oops''" and parse=toy_parse and error="?e" and i=0
             and tickets="?tickets" and summarisedTickets="[]",
           THEN conjunct2, THEN conjunct1, THEN mp, OF garbled, THEN conjunct2])
  have called: "completions (?s2 @ [batch_line [sample_text] (0 + BATCH_SIZE) ?tickets]) = 2"
    by (simp add: completions_def batch_line_def backoff_round_def)
  have answer: "summarise ?api toy_parse [sample_text] (?s2 @ [batch_line [sample_text] (0 + BATCH_SIZE) ?tickets]) =
      (Inr [JObject []], (?s2 @ [batch_line [sample_text] (0 + BATCH_SIZE) ?tickets]) @ [CompletionsCreate sample_text])"
    by (subst summarise_first_success [where result = "answers ''[{}]''"])
       (simp_all only: called, simp_all add: garbled_after_rate_limit_def answers_def toy_parse_def)
  have other: "0 + BATCH_SIZE < length ?tickets \<and>
      promise_all (map ticket_callback (take BATCH_SIZE (drop (0 + BATCH_SIZE) ?tickets))) = Inr [sample_text] \<and>
      summarise ?api toy_parse [sample_text] (?s2 @ [batch_line [sample_text] (0 + BATCH_SIZE) ?tickets]) =
        (Inr [JObject []], (?s2 @ [batch_line [sample_text] (0 + BATCH_SIZE) ?tickets]) @ [CompletionsCreate sample_text])"
    unfolding answer
    by (simp add: BATCH_SIZE_def ticket_callback_sample promise_all_single)
  have second: "summariseTickets_loop ?api toy_parse ?tickets (0 + BATCH_SIZE) [] ?s2 =
      (case summariseTickets_loop ?api toy_parse ?tickets (0 + BATCH_SIZE + BATCH_SIZE) [] ?s3 of
         (Inl thrown, s') \<Rightarrow> (Inl thrown, s')
       | (Inr later, s') \<Rightarrow> (Inr ([] @ [JObject []] @ later), s'))"
    by (rule unparsable_response_degrades
          [where api="?api" and s="?s2" and ticketBatch="[sample_text]" and parse=toy_parse
             and i="0 + BATCH_SIZE" and tickets="?tickets" and summarisedTickets="[]"
             and summarisedTicketBatch="[JObject []]"
             and s_after="(?s2 @ [batch_line [sample_text] (0 + BATCH_SIZE) ?tickets]) @ [CompletionsCreate sample_text]",
           THEN conjunct2, THEN conjunct2, THEN conjunct1, THEN mp, OF other])
  have over: "\<not> 0 + BATCH_SIZE + BATCH_SIZE < length ?tickets"
    by (simp add: BATCH_SIZE_def)
  have third: "summariseTickets_loop ?api toy_parse ?tickets (0 + BATCH_SIZE + BATCH_SIZE) [] ?s3 = (Inr [], ?s3)"
    by (rule unparsable_response_degrades
          [where api="?api" and s="?s3" and parse=toy_parse and i="0 + BATCH_SIZE + BATCH_SIZE"
             and tickets="?tickets" and summarisedTickets="[]",
           THEN conjunct2, THEN conjunct2, THEN conjunct2, THEN conjunct1, THEN mp, OF over])
  have run: "summariseTickets ?api toy_parse ?tickets [] =
      summariseTickets_loop ?api toy_parse ?tickets 0 []
        ([] @ [ConsoleLog [Str ''Summarising '', Num (length ?tickets), Str '' tickets...'']])"
    by (rule unparsable_response_degrades
          [where api="?api" and s="[]" and parse=toy_parse and tickets="?tickets",
           THEN conjunct2, THEN conjunct2, THEN conjunct2, THEN conjunct2])
  have "summariseTickets_loop ?api toy_parse ?tickets 0 [] ?s0 = (Inr [JObject []], ?s3)"
    unfolding first second third by simp
  then show ?thesis
    unfolding run
    by (simp add: BATCH_SIZE_def backoff_round_def)
qed

subsection \<open>A response that is not an array\<close>

text \<open>
  C5. When the text returned by the completion API parses as a value that is not an
  array, \<^verbatim>\<open>summarise\<close> returns the one-element sequence holding that value: the same
  result as for a text that parses as the one-element array of that value.
\<close>

theorem non_array_response_wrapped:
  "(summarise_retry api (join ''\<newline>---\<newline>'' tickets) 0 s = (Inr returned, s1) \<and> returned \<noteq> '''' \<and>
    parse returned = Inr v \<and> \<not> isArray v \<longrightarrow>
      summarise api parse tickets s = (Inr [v], s1)) \<and>
   (summarise_retry api (join ''\<newline>---\<newline>'' tickets) 0 s = (Inr returned, s1) \<and> returned \<noteq> '''' \<and>
    parse returned = Inr (JArray [v]) \<longrightarrow>
      summarise api parse tickets s = (Inr [v], s1)) \<and>
   (api (completions s) (join ''\<newline>---\<newline>'' tickets) = Inr result \<and> returned_content result \<noteq> '''' \<and>
    parse (returned_content result) = Inr v \<and> \<not> isArray v \<longrightarrow>
      summarise api parse tickets s = (Inr [v], s @ [CompletionsCreate (join ''\<newline>---\<newline>'' tickets)])) \<and>
   (isArray v \<longleftrightarrow> (\<exists>xs. v = JArray xs))"
proof -
  have "isArray v \<longleftrightarrow> (\<exists>xs. v = JArray xs)"
    by (cases v) simp_all
  then show ?thesis
    by (auto simp: summarise_after_retry summarise_first_success)
qed

theorem non_array_response_wrapped_witness:
  "summarise (\<lambda>n c. Inr (answers ''{}'')) toy_parse [''a''] [] = (Inr [JObject []], [CompletionsCreate ''a'']) \<and>
   summarise (\<lambda>n c. Inr (answers ''[{}]'')) toy_parse [''a''] [] = (Inr [JObject []], [CompletionsCreate ''a''])"
proof -
  have one: "summarise_retry (\<lambda>n c. Inr (answers ''{}'')) (join ''\<newline>---\<newline>'' [''a'']) 0 [] =
      (Inr ''{}'', [CompletionsCreate ''a''])"
    by (simp add: summarise_retry_success maxRetries_def answers_def)
  have two: "summarise_retry (\<lambda>n c. Inr (answers ''[{}]'')) (join ''\<newline>---\<newline>'' [''a'']) 0 [] =
      (Inr ''[{}]'', [CompletionsCreate ''a''])"
    by (simp add: summarise_retry_success maxRetries_def answers_def)
  have p1: "toy_parse ''{}'' = Inr (JObject [])" and p2: "toy_parse ''[{}]'' = Inr (JArray [JObject []])"
    by (simp_all add: toy_parse_def)
  from non_array_response_wrapped
    [of "\<lambda>n c. Inr (answers ''{}'')" "[''a'']" "[]" "''{}''" "[CompletionsCreate ''a'']" toy_parse "JObject []"]
    one p1
  have "summarise (\<lambda>n c. Inr (answers ''{}'')) toy_parse [''a''] [] = (Inr [JObject []], [CompletionsCreate ''a''])"
    by simp
  moreover from non_array_response_wrapped
    [of "\<lambda>n c. Inr (answers ''[{}]'')" "[''a'']" "[]" "''[{}]''" "[CompletionsCreate ''a'']" toy_parse "JObject []"]
    two p2
  have "summarise (\<lambda>n c. Inr (answers ''[{}]'')) toy_parse [''a''] [] = (Inr [JObject []], [CompletionsCreate ''a''])"
    by simp
  ultimately show ?thesis by simp
qed

subsection \<open>Fetch errors\<close>

text \<open>
  C6. When the tracker query of a fetch throws, \<^verbatim>\<open>getAllTicketsForProject\<close> and
  \<^verbatim>\<open>getAllUnprojectedTickets\<close> write the error to the console and return the empty
  sequence; they never throw. \<^verbatim>\<open>generateReleaseNote\<close> therefore goes on with the
  fetches that follow: the tickets it gathers are those of every other fetch, the same as
  if the failed query had answered with no tickets, and the run ends the same way, normally
  or with the same error of a later stage.
\<close>

theorem fetch_error_recovered:
  "(issues (IssueFilter (Some (project_id project)) columnName) = Inl error \<longrightarrow>
      getAllTicketsForProject issues project columnName s =
        ([], s @ [ConsoleError [Str ''Error fetching issues for project '', Str (project_name project),
                                Str '' from column '', Str columnName, Err error]])) \<and>
   (issues (IssueFilter None columnName) = Inl error \<longrightarrow>
      getAllUnprojectedTickets issues columnName s =
        ([], s @ [ConsoleError [Str ''Error fetching unprojected issues from column '', Str columnName,
                                Err error]])) \<and>
   fst (fetch_all_tickets linear_projects issues s) =
     concat (map (\<lambda>project. concat (map (\<lambda>columnName.
        fetched (issues (IssueFilter (Some (project_id project)) columnName))) columns))
        (case linear_projects of Inr nodes \<Rightarrow> nodes | Inl error \<Rightarrow> [])) @
     concat (map (\<lambda>columnName. fetched (issues (IssueFilter None columnName))) columns) \<and>
   fetched (Inl error) = [] \<and>
   fst (fetch_all_tickets linear_projects (issues(f := Inl error)) s) =
     fst (fetch_all_tickets linear_projects (issues(f := Inr [])) s) \<and>
   fst (generateReleaseNote linear_projects (issues(f := Inl error)) api parse s) =
     fst (generateReleaseNote linear_projects (issues(f := Inr [])) api parse s) \<and>
   generateReleaseNote linear_projects issues api parse s =
     (case summariseTickets api parse (fst (fetch_all_tickets linear_projects issues s))
             (snd (fetch_all_tickets linear_projects issues s)) of
        (Inl error, s2) \<Rightarrow> (Inl error, s2)
      | (Inr summarisedTickets, s2) \<Rightarrow>
          (case formatReleaseNote summarisedTickets s2 of
             (Inl error, s3) \<Rightarrow> (Inl error, s3)
           | (Inr releaseNote, s3) \<Rightarrow>
               (Inr (), s3 @ [ConsoleLog [Str ''\<newline>Final release note:\<newline>''],
                              ConsoleLog [Str releaseNote]])))"
proof -
  have same: "fst (fetch_all_tickets linear_projects (issues(f := Inl error)) s) =
     fst (fetch_all_tickets linear_projects (issues(f := Inr [])) s)"
  proof -
    have "fetched ((issues(f := Inl error)) g) = fetched ((issues(f := Inr [])) g)" for g
      by simp
    then show ?thesis
      by (simp only: fetch_all_tickets_fetched)
  qed
  have run: "generateReleaseNote linear_projects issues api parse s =
     (case summariseTickets api parse (fst (fetch_all_tickets linear_projects issues s))
             (snd (fetch_all_tickets linear_projects issues s)) of
        (Inl error, s2) \<Rightarrow> (Inl error, s2)
      | (Inr summarisedTickets, s2) \<Rightarrow>
          (case formatReleaseNote summarisedTickets s2 of
             (Inl error, s3) \<Rightarrow> (Inl error, s3)
           | (Inr releaseNote, s3) \<Rightarrow>
               (Inr (), s3 @ [ConsoleLog [Str ''\<newline>Final release note:\<newline>''],
                              ConsoleLog [Str releaseNote]])))"
    by (simp add: generateReleaseNote_def split_beta)
  have outcome: "fst (generateReleaseNote linear_projects (issues(f := Inl error)) api parse s) =
     fst (generateReleaseNote linear_projects (issues(f := Inr [])) api parse s)"
    using same by (rule generateReleaseNote_same)
  show ?thesis
    using same outcome run
    by (simp add: getAllTicketsForProject_def getAllUnprojectedTickets_def fetch_all_tickets_fetched)
qed

theorem fetch_error_recovered_witness:
  "getAllTicketsForProject broken_tracker \<lparr>project_id = ''p1'', project_name = ''API''\<rparr> ''Done'' [] =
     ([], [ConsoleError [Str ''Error fetching issues for project '', Str ''API'', Str '' from column '',
                         Str ''Done'', Err (JsError ''LinearError'' ''Network error'' None)]]) \<and>
   getAllUnprojectedTickets (broken_tracker(IssueFilter None ''Done'' := Inl (JsError ''LinearError'' ''Network error'' None)))
       ''Done'' [] =
     ([], [ConsoleError [Str ''Error fetching unprojected issues from column '', Str ''Done'',
                         Err (JsError ''LinearError'' ''Network error'' None)]]) \<and>
   fst (fetch_all_tickets (Inr [\<lparr>project_id = ''p1'', project_name = ''API''\<rparr>]) broken_tracker []) =
     [sample_ticket]"
proof -
  let ?p = "\<lparr>project_id = ''p1'', project_name = ''API''\<rparr>"
  let ?e = "JsError ''LinearError'' ''Network error'' None"
  let ?t = "broken_tracker(IssueFilter None ''Done'' := Inl ?e)"
  have 1: "broken_tracker (IssueFilter (Some (project_id ?p)) ''Done'') = Inl ?e"
    by (simp add: broken_tracker_def)
  have 2: "?t (IssueFilter None ''Done'') = Inl ?e"
    by simp
  note project_fetch = fetch_error_recovered [of broken_tracker ?p "''Done''" ?e "[]" "Inr [?p]"]
  note unprojected_fetch = fetch_error_recovered [of ?t ?p "''Done''" ?e "[]"]
  from project_fetch [THEN conjunct1] 1
  have "getAllTicketsForProject broken_tracker ?p ''Done'' [] =
      ([], [] @ [ConsoleError [Str ''Error fetching issues for project '', Str (project_name ?p),
                               Str '' from column '', Str ''Done'', Err ?e]])"
    by (rule mp)
  moreover note project_fetch [THEN conjunct2, THEN conjunct2, THEN conjunct1]
  moreover from unprojected_fetch [THEN conjunct2, THEN conjunct1] 2
  have "getAllUnprojectedTickets ?t ''Done'' [] =
      ([], [] @ [ConsoleError [Str ''Error fetching unprojected issues from column '', Str ''Done'', Err ?e]])"
    by (rule mp)
  ultimately show ?thesis
    by (simp add: columns_def broken_tracker_def LINEAR_DONE_COLUMN_def LINEAR_STAGING_COLUMN_def
        LINEAR_IN_REVIEW_COLUMN_def LINEAR_IN_PROGRESS_COLUMN_def LINEAR_TODO_COLUMN_def)
qed

subsection \<open>The text of the release note\<close>

text \<open>
  C7. \<^verbatim>\<open>formatReleaseNote\<close> renders every project group as the header line
  \<^verbatim>\<open>*<project>*:\<close>, one line \<^verbatim>\<open>[<category>] <summary> - [<identifier>](<url>)\<close> for
  every ticket of the group, and a blank line: whenever it returns a text, the text is
  the groups in the order of \<^verbatim>\<open>Object.keys\<close>, followed by the second rendering of the
  group named Enhancement if there is one, and it returns that text for all tickets that
  are objects with five string fields whose project is no name inherited from
  \<^verbatim>\<open>Object.prototype\<close>. For the single ticket with project API, category DB, summary
  Update DB, identifier E-1 and url https://x/E-1 the text is those two lines and the
  blank line.
\<close>

theorem release_note_rendering:
  "(formatReleaseNote tickets s = (Inr out, s') \<longrightarrow>
      out = concat (map (group_text tickets) (object_keys (grouping tickets))) @ enhancements_text tickets) \<and>
   group_text tickets key =
     ''*'' @ key @ ''*:\<newline>'' @ concat (map line_text (tickets_of tickets key)) @ ''\<newline>'' \<and>
   line_text (summarised_ticket project category summary ident url) =
     ''['' @ category @ ''] '' @ summary @ '' - ['' @ ident @ '']('' @ url @ '')\<newline>'' \<and>
   ((\<forall>t\<in>set tickets. \<exists>p c m i u. t = summarised_ticket p c m i u \<and> p \<notin> set object_prototype_names) \<longrightarrow>
      fst (formatReleaseNote tickets s) =
        Inr (concat (map (group_text tickets) (object_keys (grouping tickets))) @ enhancements_text tickets)) \<and>
   fst (formatReleaseNote [summarised_ticket ''API'' ''DB'' ''Update DB'' ''E-1'' ''https://x/E-1''] s) =
     Inr ''*API*:\<newline>[DB] Update DB - [E-1](https://x/E-1)\<newline>\<newline>''"
proof -
  let ?t = "summarised_ticket ''API'' ''DB'' ''Update DB'' ''E-1'' ''https://x/E-1''"
  have "fst (formatReleaseNote [?t] s) =
      Inr (concat (map (group_text [?t]) (object_keys (grouping [?t]))) @ enhancements_text [?t])"
    by (rule formatReleaseNote_returns) (simp_all add: object_prototype_names_def)
  then have example: "fst (formatReleaseNote [?t] s) =
      Inr ''*API*:\<newline>[DB] Update DB - [E-1](https://x/E-1)\<newline>\<newline>''"
    by (simp add: grouping_def tickets_of_def group_text_def object_keys_def is_array_index_def
        enhancements_text_def)
  show ?thesis
    using formatReleaseNote_text(1) [of tickets s out s'] formatReleaseNote_summarised [of tickets s] example
    by (simp add: group_text_def)
qed

theorem release_note_rendering_witness:
  "formatReleaseNote [summarised_ticket ''API'' ''DB'' ''Update DB'' ''E-1'' ''https://x/E-1''] [] =
     (Inr ''*API*:\<newline>[DB] Update DB - [E-1](https://x/E-1)\<newline>\<newline>'',
      [ConsoleLog [Str ''Found '', Num 1, Str '' tickets for project '', Str ''API'']]) \<and>
   concat (map (group_text [summarised_ticket ''API'' ''DB'' ''Update DB'' ''E-1'' ''https://x/E-1''])
       (object_keys (grouping [summarised_ticket ''API'' ''DB'' ''Update DB'' ''E-1'' ''https://x/E-1'']))) @
     enhancements_text [summarised_ticket ''API'' ''DB'' ''Update DB'' ''E-1'' ''https://x/E-1''] =
     ''*API*:\<newline>[DB] Update DB - [E-1](https://x/E-1)\<newline>\<newline>''"
proof -
  let ?t = "summarised_ticket ''API'' ''DB'' ''Update DB'' ''E-1'' ''https://x/E-1''"
  let ?out = "''*API*:\<newline>[DB] Update DB - [E-1](https://x/E-1)\<newline>\<newline>''"
  let ?s = "[ConsoleLog [Str ''Found '', Num 1, Str '' tickets for project '', Str ''API'']]"
  have run: "formatReleaseNote [?t] [] = (Inr ?out, ?s)"
    by (simp add: formatReleaseNote_def group_ticket_key push_def object_prototype_names_def
        object_keys_def is_array_index_def)
  from release_note_rendering [of "[?t]" "[]" ?out ?s] run
  have "?out = concat (map (group_text [?t]) (object_keys (grouping [?t]))) @ enhancements_text [?t]"
    by blast
  with run show ?thesis by simp
qed

subsection \<open>The second rendering of the group Enhancement\<close>




subsection \<open>The order of the groups\<close>

text \<open>
  C9, as the code has it. The claim that the group headers appear in the order in which
  the project names first occur in the input fails for a project name that is an array
  index: \<^verbatim>\<open>Object.keys\<close> lists such keys first. For a ticket of project API followed
  by a ticket of project 2, the header of 2 comes before the header of API.
\<close>

theorem grouping_order_counterexample:
  "first_seen (map key_text numbered_tickets) = [''API'', ''2''] \<and>
   fst (formatReleaseNote numbered_tickets []) =
     Inr (''*2*:\<newline>[CI] Fix CI - [E-2](u2)\<newline>\<newline>'' @ ''*API*:\<newline>[DB] Update DB - [E-1](u1)\<newline>\<newline>'') \<and>
   fst (formatReleaseNote numbered_tickets []) \<noteq>
     Inr (''*API*:\<newline>[DB] Update DB - [E-1](u1)\<newline>\<newline>'' @ ''*2*:\<newline>[CI] Fix CI - [E-2](u2)\<newline>\<newline>'')"
  by (simp add: run_numbered_tickets) (simp add: numbered_tickets_def)

text \<open>
  C9, amended. Whenever \<^verbatim>\<open>formatReleaseNote\<close> returns a text, the tickets are grouped
  by the project field and the tickets of a group appear in input order; so, the results
  of \<^verbatim>\<open>summariseTickets\<close> being the results of the batches in batch order, a ticket of
  batch \<open>i\<close> never comes after a ticket of batch \<open>i + 1\<close> in its group. The group
  headers appear in the order of \<^verbatim>\<open>Object.keys\<close>: the project names that are array
  indices (the decimal text of an integer from 0 to 4294967294) first, in ascending
  numeric order, then the other names in the order of their first occurrence. When no
  project name is an array index, that is the first-seen order of all the names.
\<close>

theorem grouping_order:
  "(formatReleaseNote tickets s = (Inr out, s') \<longrightarrow>
      out = concat (map (group_text tickets) (object_keys (grouping tickets))) @ enhancements_text tickets \<and>
      object_keys (grouping tickets) =
        sort_key decimal_value (filter is_array_index (first_seen (map key_text tickets))) @
        filter (\<lambda>key. \<not> is_array_index key) (first_seen (map key_text tickets))) \<and>
   (formatReleaseNote tickets s = (Inr out, s') \<and> (\<forall>t\<in>set tickets. \<not> is_array_index (key_text t)) \<longrightarrow>
      out = concat (map (group_text tickets) (first_seen (map key_text tickets))) @ enhancements_text tickets) \<and>
   group_text tickets key =
     ''*'' @ key @ ''*:\<newline>'' @ concat (map line_text (tickets_of tickets key)) @ ''\<newline>'' \<and>
   tickets_of tickets key = filter (\<lambda>ticket. project_key ticket = Inr key) tickets \<and>
   tickets_of (batch1 @ batch2) key = tickets_of batch1 key @ tickets_of batch2 key \<and>
   (summariseTickets_loop api parse issues i summarisedTickets s0 = (Inr summarisedTickets1, s1) \<longrightarrow>
      (\<exists>later. summarisedTickets1 = summarisedTickets @ later))"
proof -
  have keys: "object_keys (grouping tickets) =
        sort_key decimal_value (filter is_array_index (first_seen (map key_text tickets))) @
        filter (\<lambda>key. \<not> is_array_index key) (first_seen (map key_text tickets))"
    by (simp add: object_keys_def)
  have plain: "object_keys (grouping tickets) = first_seen (map key_text tickets)"
    if "\<forall>t\<in>set tickets. \<not> is_array_index (key_text t)"
  proof -
    from that have "\<forall>key\<in>fst ` set (grouping tickets). \<not> is_array_index key"
      by (simp add: keys_grouping)
    from object_keys_no_index [OF this] show ?thesis by simp
  qed
  have shown: "out = concat (map (group_text tickets) (object_keys (grouping tickets))) @ enhancements_text tickets"
    if "formatReleaseNote tickets s = (Inr out, s')"
    using that by (rule formatReleaseNote_text(1))
  have ordered: "out = concat (map (group_text tickets) (first_seen (map key_text tickets))) @ enhancements_text tickets"
    if "formatReleaseNote tickets s = (Inr out, s')" "\<forall>t\<in>set tickets. \<not> is_array_index (key_text t)"
    using shown [OF that(1)] plain [OF that(2)] by (simp only:)
  have batches: "\<exists>later. summarisedTickets1 = summarisedTickets @ later"
    if "summariseTickets_loop api parse issues i summarisedTickets s0 = (Inr summarisedTickets1, s1)"
    using that by (rule summariseTickets_loop_prefix)
  from keys shown ordered batches show ?thesis
    by (simp only: group_text_def tickets_of_def filter_append) blast
qed

theorem grouping_order_witness:
  "formatReleaseNote enhancement_tickets [] =
     (Inr (''*Enhancement*:\<newline>[DB] Update DB - [E-1](u1)\<newline>[UI] Add button - [E-3](u3)\<newline>\<newline>'' @
           ''*API*:\<newline>[CI] Fix CI - [E-2](u2)\<newline>\<newline>'' @
           ''*Enhancements*:\<newline>[DB] Update DB - [E-1](u1)\<newline>[UI] Add button - [E-3](u3)\<newline>\<newline>''),
      [ConsoleLog [Str ''Found '', Num 2, Str '' tickets for project '', Str ''Enhancement''],
       ConsoleLog [Str ''Found '', Num 1, Str '' tickets for project '', Str ''API'']]) \<and>
   first_seen (map key_text enhancement_tickets) = [''Enhancement'', ''API''] \<and>
   ''*Enhancement*:\<newline>[DB] Update DB - [E-1](u1)\<newline>[UI] Add button - [E-3](u3)\<newline>\<newline>'' @
   ''*API*:\<newline>[CI] Fix CI - [E-2](u2)\<newline>\<newline>'' @
   ''*Enhancements*:\<newline>[DB] Update DB - [E-1](u1)\<newline>[UI] Add button - [E-3](u3)\<newline>\<newline>'' =
     concat (map (group_text enhancement_tickets) (first_seen (map key_text enhancement_tickets))) @
     enhancements_text enhancement_tickets"
proof -
  have plain: "\<forall>t\<in>set enhancement_tickets. \<not> is_array_index (key_text t)"
    by (simp add: enhancement_tickets_def is_array_index_def)
  have seen: "first_seen (map key_text enhancement_tickets) = [''Enhancement'', ''API'']"
    by (simp add: enhancement_tickets_def)
  from grouping_order [of enhancement_tickets "[]" _
      "[ConsoleLog [Str ''Found '', Num 2, Str '' tickets for project '', Str ''Enhancement''],
        ConsoleLog [Str ''Found '', Num 1, Str '' tickets for project '', Str ''API'']]"]
    run_enhancement_tickets plain
  have "''*Enhancement*:\<newline>[DB] Update DB - [E-1](u1)\<newline>[UI] Add button - [E-3](u3)\<newline>\<newline>'' @
      ''*API*:\<newline>[CI] Fix CI - [E-2](u2)\<newline>\<newline>'' @
      ''*Enhancements*:\<newline>[DB] Update DB - [E-1](u1)\<newline>[UI] Add button - [E-3](u3)\<newline>\<newline>'' =
     concat (map (group_text enhancement_tickets) (first_seen (map key_text enhancement_tickets))) @
     enhancements_text enhancement_tickets"
    by blast
  with run_enhancement_tickets seen show ?thesis by (simp only:)
qed

subsection \<open>A response without content\<close>

text \<open>
  C10. When a call of the completion API succeeds, on whichever attempt, but the response
  carries no message content (the content is absent, or is the empty string, so that
  \<^verbatim>\<open>result.choices?.[0]?.message?.content || ""\<close> is the empty string), the retry
  loop is left at once with the empty text: no wait and no further call follows.
  \<^verbatim>\<open>summarise\<close> then throws the terminal error
  \<^verbatim>\<open>Failed to get a response from OpenAI API\<close>; its effects are the rounds of the
  retried failures before that call, if there were any, and the call. The terminal error
  is therefore reachable on a successful first attempt, without any failed attempt.
\<close>

theorem summarise_empty_content_terminal:
  "(attempt < maxRetries \<and> api (completions s) c = Inr result \<and> returned_content result = '''' \<longrightarrow>
      summarise_retry api c attempt s = (Inr '''', s @ [CompletionsCreate c])) \<and>
   (k < maxRetries \<and>
    (\<forall>j<k. api (completions s + j) (join ''\<newline>---\<newline>'' tickets) = Inl (errors j) \<and> retryable (errors j)) \<and>
    api (completions s + k) (join ''\<newline>---\<newline>'' tickets) = Inr result \<and> returned_content result = '''' \<longrightarrow>
      summarise api parse tickets s =
        (Inl no_response,
         s @ concat (map (backoff_round (join ''\<newline>---\<newline>'' tickets) errors) [0..<k]) @
           [CompletionsCreate (join ''\<newline>---\<newline>'' tickets)])) \<and>
   err_message no_response = ''Failed to get a response from OpenAI API'' \<and>
   returned_content (ChatCompletion (Some (Some (ChatChoice (Some (ChatMessage None))) # cs))) = '''' \<and>
   returned_content (ChatCompletion (Some (Some (ChatChoice (Some (ChatMessage (Some '''')))) # cs))) = '''' \<and>
   returned_content (ChatCompletion (Some (Some (ChatChoice None) # cs))) = '''' \<and>
   returned_content (ChatCompletion (Some (None # cs))) = '''' \<and>
   returned_content (ChatCompletion (Some [])) = '''' \<and>
   returned_content (ChatCompletion None) = ''''"
proof -
  have loop: "summarise_retry api c attempt s = (Inr '''', s @ [CompletionsCreate c])"
    if "attempt < maxRetries" "api (completions s) c = Inr result" "returned_content result = ''''"
    using summarise_retry_success [where attempt=attempt and api=api and s=s and c=c and result=result] that
    by simp
  have terminal: "summarise api parse tickets s =
        (Inl no_response,
         s @ concat (map (backoff_round (join ''\<newline>---\<newline>'' tickets) errors) [0..<k]) @
           [CompletionsCreate (join ''\<newline>---\<newline>'' tickets)])"
    if "k < maxRetries"
      "\<forall>j<k. api (completions s + j) (join ''\<newline>---\<newline>'' tickets) = Inl (errors j) \<and> retryable (errors j)"
      "api (completions s + k) (join ''\<newline>---\<newline>'' tickets) = Inr result"
      "returned_content result = ''''"
    using summarise_answered
        [where k=k and api=api and s=s and tickets=tickets and errors=errors and result=result
           and parse=parse] that
    by simp
  show ?thesis
    using loop terminal by (simp add: no_response_def)
qed

theorem summarise_empty_content_terminal_witness:
  "summarise (\<lambda>n c. Inr (ChatCompletion (Some [Some (ChatChoice (Some (ChatMessage (Some ''''))))])))
     (\<lambda>t. Inr JNull) [''a'', ''b''] [] =
   (Inl (JsError ''Error'' ''Failed to get a response from OpenAI API'' None),
    [CompletionsCreate ''a\<newline>---\<newline>b'']) \<and>
   summarise empty_after_rate_limit (\<lambda>t. Inr JNull) [''a'', ''b''] [] =
   (Inl (JsError ''Error'' ''Failed to get a response from OpenAI API'' None),
    [CompletionsCreate ''a\<newline>---\<newline>b'',
     ConsoleError [Str ''Error querying OpenAI API:'', Err rate_limit_error],
     ConsoleLog [Str ''Retrying in '', Num 1, Str '' seconds...''],
     SetTimeout 1000,
     CompletionsCreate ''a\<newline>---\<newline>b''])"
proof -
  let ?empty = "ChatCompletion (Some [Some (ChatChoice (Some (ChatMessage (Some ''''))))])"
  let ?absent = "ChatCompletion (Some [Some (ChatChoice (Some (ChatMessage None)))])"
  have at_once: "0 < maxRetries \<and>
      (\<forall>j<0. (\<lambda>n c. Inr ?empty) (completions [] + j) (join ''\<newline>---\<newline>'' [''a'', ''b'']) =
                Inl (rate_limit_error) \<and> retryable rate_limit_error) \<and>
      (\<lambda>n c. Inr ?empty) (completions [] + 0) (join ''\<newline>---\<newline>'' [''a'', ''b'']) = Inr ?empty \<and>
      returned_content ?empty = ''''"
    by (simp add: maxRetries_def)
  have after_wait: "1 < maxRetries \<and>
      (\<forall>j<1. empty_after_rate_limit (completions [] + j) (join ''\<newline>---\<newline>'' [''a'', ''b'']) =
                Inl rate_limit_error \<and> retryable rate_limit_error) \<and>
      empty_after_rate_limit (completions [] + 1) (join ''\<newline>---\<newline>'' [''a'', ''b'']) = Inr ?absent \<and>
      returned_content ?absent = ''''"
    by (simp add: maxRetries_def empty_after_rate_limit_def retryable_rate_limit_error completions_Nil)
  have "summarise (\<lambda>n c. Inr ?empty) (\<lambda>t. Inr JNull) [''a'', ''b''] [] =
      (Inl no_response,
       [] @ concat (map (backoff_round (join ''\<newline>---\<newline>'' [''a'', ''b'']) (\<lambda>k. rate_limit_error)) [0..<0]) @
         [CompletionsCreate (join ''\<newline>---\<newline>'' [''a'', ''b''])])"
    by (rule summarise_empty_content_terminal
          [where k=0 and api="\<lambda>n c. Inr ?empty" and s="[]" and tickets="[''a'', ''b'']"
             and errors="\<lambda>k. rate_limit_error" and result="?empty" and parse="\<lambda>t. Inr JNull",
           THEN conjunct2, THEN conjunct1, THEN mp, OF at_once])
  moreover have "summarise empty_after_rate_limit (\<lambda>t. Inr JNull) [''a'', ''b''] [] =
      (Inl no_response,
       [] @ concat (map (backoff_round (join ''\<newline>---\<newline>'' [''a'', ''b'']) (\<lambda>k. rate_limit_error)) [0..<1]) @
         [CompletionsCreate (join ''\<newline>---\<newline>'' [''a'', ''b''])])"
    by (rule summarise_empty_content_terminal
          [where k=1 and api=empty_after_rate_limit and s="[]" and tickets="[''a'', ''b'']"
             and errors="\<lambda>k. rate_limit_error" and result="?absent" and parse="\<lambda>t. Inr JNull",
           THEN conjunct2, THEN conjunct1, THEN mp, OF after_wait])
  ultimately show ?thesis
    by (simp add: no_response_def backoff_round_def)
qed

end
